theory Spec2Isabelle
  imports Complex_Main "HOL-Library.Word" "HOL-Library.Sublist" "HOL-Library.Monad_Syntax"
begin

unbundle bit_operations_syntax

section \<open>Strings and the library routines the parser calls\<close>

text \<open>
  A Go string is a sequence of bytes, here a \<open>string\<close> (a list of 8-bit characters).
  The routines of this section are the ones of Go's standard library that
  \<^verbatim>\<open>parseAndStore\<close> and \<^verbatim>\<open>processHistoricalLogs\<close> call, specialised to the
  arguments the program passes (base 10, 64 bits, one layout, one pattern).
\<close>

definition newline :: char where
  "newline = CHR 0x0A"

definition isDigit :: "char \<Rightarrow> bool" where
  "isDigit c = (48 \<le> (of_char c :: int) \<and> (of_char c :: int) \<le> 57)"

definition digit_val :: "char \<Rightarrow> int" where
  "digit_val c = (of_char c :: int) - 48"

subsection \<open>strconv.ParseInt(s, 10, 64) and strconv.Atoi\<close>

datatype num_error = ErrSyntax | ErrRange

definition maxUint64 :: int where
  "maxUint64 = 18446744073709551615"

definition maxInt64 :: int where
  "maxInt64 = 9223372036854775807"

definition minInt64 :: int where
  "minInt64 = - 9223372036854775808"

text \<open>
  The loop of \<^verbatim>\<open>ParseUint\<close> in base 10 on a \<^verbatim>\<open>uint64\<close> accumulator: a byte that is
  not a decimal digit is a syntax error with value 0; an overflow is a range error with
  the largest value, reported as soon as it happens (before the later bytes are looked
  at). The accumulator wraps modulo \<open>2 ^ 64\<close> as the machine integer does.
\<close>

fun ParseUint_loop :: "int \<Rightarrow> string \<Rightarrow> int \<times> num_error option" where
  "ParseUint_loop n [] = (n, None)"
| "ParseUint_loop n (c # cs) =
     (if \<not> isDigit c then (0, Some ErrSyntax)
      else if n \<ge> maxUint64 div 10 + 1 then (maxUint64, Some ErrRange)
      else
        let m = (n * 10) mod 2 ^ 64;
            n1 = (m + digit_val c) mod 2 ^ 64
        in if n1 < m \<or> n1 > maxUint64 then (maxUint64, Some ErrRange)
           else ParseUint_loop n1 cs)"

definition ParseUint :: "string \<Rightarrow> int \<times> num_error option" where
  "ParseUint s = (if s = [] then (0, Some ErrSyntax) else ParseUint_loop 0 s)"

text \<open>
  \<^verbatim>\<open>ParseInt\<close>: an optional sign, then \<^verbatim>\<open>ParseUint\<close>; a syntax error gives 0, a
  magnitude beyond the 64-bit range gives the nearest bound together with a range error.
\<close>

definition ParseInt :: "string \<Rightarrow> int \<times> num_error option" where
  "ParseInt s0 =
     (if s0 = [] then (0, Some ErrSyntax)
      else
        let neg = (hd s0 = CHR ''-'');
            s = (if hd s0 = CHR ''+'' \<or> hd s0 = CHR ''-'' then tl s0 else s0);
            (un, err) = ParseUint s
        in if err = Some ErrSyntax then (0, err)
           else if \<not> neg \<and> un \<ge> 2 ^ 63 then (maxInt64, Some ErrRange)
           else if neg \<and> un > 2 ^ 63 then (minInt64, Some ErrRange)
           else (if neg then - un else un, None))"

text \<open>
  \<^verbatim>\<open>Atoi\<close> is \<^verbatim>\<open>ParseInt(s, 10, 0)\<close> with a fast path for short strings that computes
  the same value; \<^verbatim>\<open>int\<close> is taken to be 64 bits wide (the image is built for a 64-bit
  Linux target).
\<close>

definition Atoi :: "string \<Rightarrow> int \<times> num_error option" where
  "Atoi s = ParseInt s"

subsection \<open>strings.TrimSpace\<close>

text \<open>
  \<^verbatim>\<open>TrimSpace\<close> removes leading and trailing Unicode white space. In UTF-8 these are the
  six ASCII bytes tab, line feed, vertical tab, form feed, carriage return and space, and
  the encodings of U+0085, U+00A0, U+1680, U+2000 to U+200A, U+2028, U+2029, U+202F,
  U+205F and U+3000.
\<close>

definition space_seqs :: "string list" where
  "space_seqs =
     [[CHR 0x09], [CHR 0x0A], [CHR 0x0B], [CHR 0x0C], [CHR 0x0D], [CHR 0x20],
      [CHR 0xC2, CHR 0x85], [CHR 0xC2, CHR 0xA0], [CHR 0xE1, CHR 0x9A, CHR 0x80],
      [CHR 0xE2, CHR 0x80, CHR 0x80], [CHR 0xE2, CHR 0x80, CHR 0x81],
      [CHR 0xE2, CHR 0x80, CHR 0x82], [CHR 0xE2, CHR 0x80, CHR 0x83],
      [CHR 0xE2, CHR 0x80, CHR 0x84], [CHR 0xE2, CHR 0x80, CHR 0x85],
      [CHR 0xE2, CHR 0x80, CHR 0x86], [CHR 0xE2, CHR 0x80, CHR 0x87],
      [CHR 0xE2, CHR 0x80, CHR 0x88], [CHR 0xE2, CHR 0x80, CHR 0x89],
      [CHR 0xE2, CHR 0x80, CHR 0x8A], [CHR 0xE2, CHR 0x80, CHR 0xA8],
      [CHR 0xE2, CHR 0x80, CHR 0xA9], [CHR 0xE2, CHR 0x80, CHR 0xAF],
      [CHR 0xE2, CHR 0x81, CHR 0x9F], [CHR 0xE3, CHR 0x80, CHR 0x80]]"

fun TrimLeft :: "string \<Rightarrow> string" where
  "TrimLeft [] = []"
| "TrimLeft (c # cs) =
     (if [c] \<in> set space_seqs then TrimLeft cs
      else if take 2 (c # cs) \<in> set space_seqs then TrimLeft (tl cs)
      else if take 3 (c # cs) \<in> set space_seqs then TrimLeft (tl (tl cs))
      else c # cs)"

text \<open>Trimming on the right is trimming the reversed string by the reversed sequences.\<close>

fun TrimLeft_rev :: "string \<Rightarrow> string" where
  "TrimLeft_rev [] = []"
| "TrimLeft_rev (c # cs) =
     (if [c] \<in> set space_seqs then TrimLeft_rev cs
      else if rev (take 2 (c # cs)) \<in> set space_seqs then TrimLeft_rev (tl cs)
      else if rev (take 3 (c # cs)) \<in> set space_seqs then TrimLeft_rev (tl (tl cs))
      else c # cs)"

definition TrimSpace :: "string \<Rightarrow> string" where
  "TrimSpace s = rev (TrimLeft_rev (rev (TrimLeft s)))"

subsection \<open>The committed-state pattern\<close>

text \<open>
  \<^verbatim>\<open>I\[(.*?)\] Committed State\s+module=(.*?)\s+height=(.*?)\s+txs=(.*?)\s+appHash=(.*)\<close>

  Go's \<^verbatim>\<open>regexp\<close> returns the leftmost match and, among the matches that start there,
  the one a backtracking search finds first. The pattern is written below as that search,
  one combinator per piece of the pattern; each takes the matcher of the rest of the
  pattern as its continuation and yields the captured groups (in order) and the input
  that is left after the match.
  \<^item> \<open>lit p\<close>: the literal text \<open>p\<close>;
  \<^item> \<open>ws_plus\<close>: \<^verbatim>\<open>\s+\<close>, one or more of tab, line feed, form feed, carriage return,
    space, as many as possible first;
  \<^item> \<open>lazy_dot\<close>: the group \<^verbatim>\<open>(.*?)\<close>, as few characters as possible first, none of
    them a line feed;
  \<^item> \<open>dot_star\<close>: the final group \<^verbatim>\<open>(.*)\<close>, everything up to the next line feed.
\<close>

type_synonym matcher = "string \<Rightarrow> (string list \<times> string) option"

definition is_space :: "char \<Rightarrow> bool" where
  "is_space c = (c \<in> set [CHR 0x09, CHR 0x0A, CHR 0x0C, CHR 0x0D, CHR 0x20])"

definition lit :: "string \<Rightarrow> matcher \<Rightarrow> matcher" where
  "lit p k s = (if prefix p s then k (drop (length p) s) else None)"

fun ws_plus :: "matcher \<Rightarrow> matcher" where
  "ws_plus k [] = None"
| "ws_plus k (c # cs) =
     (if is_space c
      then (case ws_plus k cs of Some r \<Rightarrow> Some r | None \<Rightarrow> k cs)
      else None)"

fun lazy_dot_acc :: "matcher \<Rightarrow> string \<Rightarrow> matcher" where
  "lazy_dot_acc k g [] =
     (case k [] of Some (gs, r) \<Rightarrow> Some (rev g # gs, r) | None \<Rightarrow> None)"
| "lazy_dot_acc k g (c # cs) =
     (case k (c # cs) of
        Some (gs, r) \<Rightarrow> Some (rev g # gs, r)
      | None \<Rightarrow> if c = newline then None else lazy_dot_acc k (c # g) cs)"

definition lazy_dot :: "matcher \<Rightarrow> matcher" where
  "lazy_dot k s = lazy_dot_acc k [] s"

definition dot_star :: matcher where
  "dot_star s = Some ([takeWhile (\<lambda>c. c \<noteq> newline) s], dropWhile (\<lambda>c. c \<noteq> newline) s)"

definition committedStateRegex :: matcher where
  "committedStateRegex =
     lit ''I['' (lazy_dot (lit ''] Committed State'' (ws_plus
       (lit ''module='' (lazy_dot (ws_plus
       (lit ''height='' (lazy_dot (ws_plus
       (lit ''txs='' (lazy_dot (ws_plus
       (lit ''appHash='' dot_star)))))))))))))"

text \<open>
  \<^verbatim>\<open>FindStringSubmatch\<close>: the match is tried at every position from the left; the result
  is the matched text followed by the five groups, or the empty list (Go's \<^verbatim>\<open>nil\<close>)
  when the pattern matches nowhere.
\<close>

fun FindStringSubmatch :: "string \<Rightarrow> string list" where
  "FindStringSubmatch [] =
     (case committedStateRegex [] of
        Some (gs, r) \<Rightarrow> [] # gs
      | None \<Rightarrow> [])"
| "FindStringSubmatch (c # cs) =
     (case committedStateRegex (c # cs) of
        Some (gs, r) \<Rightarrow> take (length (c # cs) - length r) (c # cs) # gs
      | None \<Rightarrow> FindStringSubmatch cs)"

subsection \<open>time.Parse with the layout 2006-01-02|15:04:05.000\<close>

text \<open>
  A \<^verbatim>\<open>time.Time\<close> is modelled by the number of nanoseconds since the zero time
  (1 January of year 1, 00:00:00 UTC), so the zero value of \<^verbatim>\<open>time.Time\<close> is 0. Parsed
  times are in UTC and carry no monotonic clock reading.
\<close>

type_synonym Time = int

text \<open>
  \<^verbatim>\<open>getnum\<close> reads one or two decimal digits; with \<open>fixed\<close> it insists on two.
\<close>

fun getnum :: "string \<Rightarrow> bool \<Rightarrow> (int \<times> string) option" where
  "getnum [] fixed = None"
| "getnum [c] fixed =
     (if \<not> isDigit c then None
      else if fixed then None else Some (digit_val c, []))"
| "getnum (c # d # r) fixed =
     (if \<not> isDigit c then None
      else if \<not> isDigit d then (if fixed then None else Some (digit_val c, d # r))
      else Some (digit_val c * 10 + digit_val d, r))"

definition skip :: "char \<Rightarrow> string \<Rightarrow> string option" where
  "skip p s = (case s of [] \<Rightarrow> None | c # r \<Rightarrow> if c = p then Some r else None)"

definition isLeap :: "int \<Rightarrow> bool" where
  "isLeap year = (year mod 4 = 0 \<and> (year mod 100 \<noteq> 0 \<or> year mod 400 = 0))"

definition daysIn :: "int \<Rightarrow> int \<Rightarrow> int" where
  "daysIn m year =
     (if m = 2 then (if isLeap year then 29 else 28)
      else if m \<in> {4, 6, 9, 11} then 30 else 31)"

definition daysBefore :: "int \<Rightarrow> int \<Rightarrow> int" where
  "daysBefore m year =
     [0, 31, 59, 90, 120, 151, 181, 212, 243, 273, 304, 334] ! nat (m - 1)
       + (if m > 2 \<and> isLeap year then 1 else 0)"

text \<open>
  \<^verbatim>\<open>Date\<close> on a validated date and time of day (no field needs normalising): the days
  of the years before \<open>year\<close> in the proleptic Gregorian calendar, the days of the months
  before \<open>m\<close>, the days before \<open>d\<close>, and the time of day.
\<close>

definition Date :: "int \<Rightarrow> int \<Rightarrow> int \<Rightarrow> int \<Rightarrow> int \<Rightarrow> int \<Rightarrow> int \<Rightarrow> Time" where
  "Date year m d hour minute sec nsec =
     (let y = year - 1;
          days = 365 * y + y div 4 - y div 100 + y div 400 + daysBefore m year + (d - 1)
      in ((days * 86400 + hour * 3600 + minute * 60 + sec) * 1000000000 + nsec))"

text \<open>
  The fractional second \<^verbatim>\<open>.000\<close> wants exactly four bytes: a period or a comma, then
  three bytes read by the package's \<^verbatim>\<open>atoi\<close>, which accepts a sign in front of its
  digits; a negative value is out of range. The result is scaled to nanoseconds.
\<close>

definition parseNanoseconds :: "string \<Rightarrow> (int \<times> string) option" where
  "parseNanoseconds s =
     (if length s < 4 then None
      else if s ! 0 \<noteq> CHR ''.'' \<and> s ! 0 \<noteq> CHR '','' then None
      else
        let f = take 3 (tl s);
            neg = (hd f = CHR ''-'');
            ds = (if hd f = CHR ''-'' \<or> hd f = CHR ''+'' then tl f else f)
        in if \<not> list_all isDigit ds then None
           else
             let v = foldl (\<lambda>a c. a * 10 + digit_val c) 0 ds
             in if neg \<and> v > 0 then None else Some (v * 1000000, drop 4 s))"

definition require :: "bool \<Rightarrow> unit option" where
  "require b = (if b then Some () else None)"

definition time_Parse :: "string \<Rightarrow> Time option" where
  "time_Parse v0 = do {
     require (4 \<le> length v0 \<and> list_all isDigit (take 4 v0));
     let year = foldl (\<lambda>a c. a * 10 + digit_val c) 0 (take 4 v0);
     v1 \<leftarrow> skip CHR ''-'' (drop 4 v0);
     (month, v2) \<leftarrow> getnum v1 True;
     require (0 < month \<and> month \<le> 12);
     v3 \<leftarrow> skip CHR ''-'' v2;
     (day, v4) \<leftarrow> getnum v3 True;
     v5 \<leftarrow> skip CHR ''|'' v4;
     (hour, v6) \<leftarrow> getnum v5 False;
     require (hour < 24);
     v7 \<leftarrow> skip CHR '':'' v6;
     (minute, v8) \<leftarrow> getnum v7 True;
     require (minute < 60);
     v9 \<leftarrow> skip CHR '':'' v8;
     (sec, v10) \<leftarrow> getnum v9 True;
     require (sec < 60);
     (nsec, v11) \<leftarrow> parseNanoseconds v10;
     require (v11 = []);
     require (1 \<le> day \<and> day \<le> daysIn month year);
     Some (Date year month day hour minute sec nsec)
   }"

text \<open>
  \<^verbatim>\<open>t.Sub(u)\<close> is a \<^verbatim>\<open>Duration\<close>, a signed 64-bit count of nanoseconds; a difference
  that does not fit is replaced by the largest or the smallest duration.
\<close>

definition Sub :: "Time \<Rightarrow> Time \<Rightarrow> int" where
  "Sub t u = (if t - u > maxInt64 then maxInt64 else if t - u < minInt64 then minInt64 else t - u)"

text \<open>
  \<^verbatim>\<open>d.Seconds()\<close> is \<^verbatim>\<open>float64(sec) + float64(nsec)/1e9\<close> for the whole seconds and
  the remaining nanoseconds of \<open>d\<close> (division truncating towards zero). It is taken
  here in the real numbers: the rounding of \<^verbatim>\<open>float64\<close> is not modelled. The
  comparison with 5.0 is not affected by it, since a duration below five seconds is at
  least a nanosecond below and one of at least five seconds has \<open>sec \<ge> 5\<close>.
\<close>

definition Seconds :: "int \<Rightarrow> real" where
  "Seconds d =
     (let sec = sgn d * (\<bar>d\<bar> div 1000000000);
          nsec = sgn d * (\<bar>d\<bar> mod 1000000000)
      in real_of_int sec + real_of_int nsec / 1000000000)"

section \<open>Data model\<close>

record CommittedState =
  Timestamp :: Time
  Module :: string
  Height :: int
  Txs :: int
  AppHash :: string

text \<open>
  \<^verbatim>\<open>BlockTimeGap\<close>: the fields \<^verbatim>\<open>Timestamp\<close>, \<^verbatim>\<open>Height\<close> and \<^verbatim>\<open>Txs\<close> of the Go
  struct carry the prefix \<open>Gap\<close> here, since a field name belongs to one record.
\<close>

record BlockTimeGap =
  GapTimestamp :: Time
  GapHeight :: int
  GapTxs :: int
  TimeDiff :: real
  PreviousHeight :: int

section \<open>The document store\<close>

text \<open>
  A collection is the list of its documents in insertion order, each with its
  \<^verbatim>\<open>_id\<close>, and the state of the index on \<^verbatim>\<open>height\<close>. The driver is not part of the
  repository; the model keeps what the program relies on: a unique index rejects an
  insert whose height is present (error E11000), building a unique index fails with
  E11000 while two documents share a height, and any call may fail for a reason of the
  environment (network, server), which is an input of the model: the flag \<open>fault\<close>.
\<close>

datatype db_error = DuplicateKey | IndexOptionsConflict | OtherError

datatype index_state = NoIndex | PlainIndex | UniqueIndex

record 'a collection =
  docs :: "(nat \<times> 'a) list"
  height_index :: index_state

definition heights :: "('a \<Rightarrow> int) \<Rightarrow> 'a collection \<Rightarrow> int list" where
  "heights key c = map (\<lambda>(i, d). key d) (docs c)"

text \<open>
  The driver gives every inserted document a new \<^verbatim>\<open>_id\<close>; here it is the successor
  of the largest one in the collection.
\<close>

definition fresh_id :: "(nat \<times> 'a) list \<Rightarrow> nat" where
  "fresh_id ds = foldr (\<lambda>(i, d) m. max (Suc i) m) ds 0"

definition InsertOne ::
  "('a \<Rightarrow> int) \<Rightarrow> bool \<Rightarrow> 'a \<Rightarrow> 'a collection \<Rightarrow> db_error option \<times> 'a collection" where
  "InsertOne key fault d c =
     (if fault then (Some OtherError, c)
      else if height_index c = UniqueIndex \<and> key d \<in> set (heights key c)
      then (Some DuplicateKey, c)
      else (None, c\<lparr>docs := docs c @ [(fresh_id (docs c), d)]\<rparr>))"

definition IsDuplicateKeyError :: "db_error \<Rightarrow> bool" where
  "IsDuplicateKeyError e = (e = DuplicateKey)"

section \<open>The state of the process and of its environment\<close>

datatype log_msg =
    LogCommittedWriteError
  | LogGapWriteError
  | LogGapDetected real int int int
  | LogHistoricalStart
  | LogReadDirError string
  | LogProcessingHistorical string
  | LogHistoricalDone
  | LogOpenError string
  | LogReadError string
  | LogWatchOpenError string
  | LogRotation
  | LogWatchReadError
  | LogDuplicatesFound string
  | LogDeleteError
  | LogCleaned nat
  | LogIndexCreated string
  | LogIndexExists string

text \<open>
  A file of the directory is an inode that can be opened, or one whose opening is
  refused (a permission error). The content of a file belongs to the inode, so a
  handle opened before a rotation keeps reading the file that was renamed aside.
\<close>

datatype node = Regular nat | Denied nat

datatype open_error = ErrNotExist | ErrPermission

text \<open>
  The global variable \<^verbatim>\<open>lastCommittedState\<close>, the two collections, the log output, the
  faults the store will report at the coming calls (one flag per call, none left means
  no fault), and the file system as the process sees it: the directory tree
  (\<open>files\<close>, \<open>dirs\<close>), the contents (\<open>inodes\<close>) and the table of open handles with
  their read positions.
\<close>

record world =
  lastCommittedState :: "CommittedState option"
  committed_state :: "CommittedState collection"
  block_time_gap :: "BlockTimeGap collection"
  logs :: "log_msg list"
  db_faults :: "bool list"
  files :: "string \<Rightarrow> node option"
  dirs :: "string \<Rightarrow> (string \<times> bool) list option"
  inodes :: "nat \<Rightarrow> string"
  open_files :: "nat \<Rightarrow> (nat \<times> nat) option"
  next_fd :: nat

definition log_Printf :: "log_msg \<Rightarrow> world \<Rightarrow> world" where
  "log_Printf m w = w\<lparr>logs := logs w @ [m]\<rparr>"

definition pop_fault :: "bool list \<Rightarrow> bool \<times> bool list" where
  "pop_fault fs = (case fs of [] \<Rightarrow> (False, []) | f # r \<Rightarrow> (f, r))"

definition next_fault :: "world \<Rightarrow> bool \<times> world" where
  "next_fault w = (let (f, r) = pop_fault (db_faults w) in (f, w\<lparr>db_faults := r\<rparr>))"

section \<open>parseAndStore\<close>

text \<open>
  The fields of the entry, from the groups of the match; every parse error is dropped
  (\<^verbatim>\<open>timestamp, _ := ...\<close>), so the field is whatever value the routine returns with
  its error.
\<close>

definition parse_entry :: "string list \<Rightarrow> CommittedState" where
  "parse_entry matches =
     \<lparr>Timestamp = (case time_Parse (matches ! 1) of Some t \<Rightarrow> t | None \<Rightarrow> 0),
      Module = matches ! 2,
      Height = fst (ParseInt (matches ! 3)),
      Txs = fst (Atoi (matches ! 4)),
      AppHash = TrimSpace (matches ! 5)\<rparr>"

text \<open>The insert into \<^verbatim>\<open>committed_state\<close> and the handling of its error.\<close>

definition store_committed :: "CommittedState \<Rightarrow> world \<Rightarrow> world" where
  "store_committed entry w =
     (let (fault, w1) = next_fault w;
          (err, c) = InsertOne Height fault entry (committed_state w1);
          w2 = w1\<lparr>committed_state := c\<rparr>
      in case err of
           None \<Rightarrow> w2
         | Some e \<Rightarrow> if \<not> IsDuplicateKeyError e then log_Printf LogCommittedWriteError w2 else w2)"

text \<open>The comparison with the previous entry and the insert into \<^verbatim>\<open>block_time_gap\<close>.\<close>

definition check_gap :: "CommittedState \<Rightarrow> world \<Rightarrow> world" where
  "check_gap entry w =
     (case lastCommittedState w of
        None \<Rightarrow> w
      | Some prev \<Rightarrow>
          let timeDiff = Seconds (Sub (Timestamp entry) (Timestamp prev))
          in if timeDiff \<ge> 5 then
               let gapEntry = \<lparr>GapTimestamp = Timestamp entry, GapHeight = Height entry,
                                GapTxs = Txs entry, TimeDiff = timeDiff,
                                PreviousHeight = Height prev\<rparr>;
                   (fault, w1) = next_fault w;
                   (err, c) = InsertOne GapHeight fault gapEntry (block_time_gap w1);
                   w2 = w1\<lparr>block_time_gap := c\<rparr>
               in (case err of
                     Some e \<Rightarrow>
                       if \<not> IsDuplicateKeyError e then log_Printf LogGapWriteError w2 else w2
                   | None \<Rightarrow>
                       log_Printf (LogGapDetected timeDiff (Height prev) (Height entry)
                                     (Txs entry)) w2)
             else w)"

definition parseAndStore :: "string \<Rightarrow> world \<Rightarrow> world" where
  "parseAndStore line w =
     (let matches = FindStringSubmatch line
      in if length matches > 0 then
           let entry = parse_entry matches
           in (check_gap entry (store_committed entry w))\<lparr>lastCommittedState := Some entry\<rparr>
         else w)"

section \<open>Reading files line by line\<close>

definition os_Open :: "string \<Rightarrow> world \<Rightarrow> (open_error + nat) \<times> world" where
  "os_Open name w =
     (case files w name of
        None \<Rightarrow> (Inl ErrNotExist, w)
      | Some (Denied ino) \<Rightarrow> (Inl ErrPermission, w)
      | Some (Regular ino) \<Rightarrow>
          (Inr (next_fd w),
           w\<lparr>open_files := (open_files w)(next_fd w \<mapsto> (ino, 0)), next_fd := Suc (next_fd w)\<rparr>))"

definition os_Close :: "nat \<Rightarrow> world \<Rightarrow> world" where
  "os_Close fd w = w\<lparr>open_files := (open_files w)(fd := None)\<rparr>"

text \<open>\<^verbatim>\<open>file.Seek(pos, 0)\<close>: an absolute position; it may lie beyond the end of the file.\<close>

definition os_Seek :: "nat \<Rightarrow> nat \<Rightarrow> world \<Rightarrow> world" where
  "os_Seek fd pos w =
     (case open_files w fd of
        None \<Rightarrow> w
      | Some (ino, p) \<Rightarrow> w\<lparr>open_files := (open_files w)(fd \<mapsto> (ino, pos))\<rparr>)"

text \<open>\<^verbatim>\<open>file.Seek(0, os.SEEK_CUR)\<close>: the current position of the handle.\<close>

definition os_Tell :: "nat \<Rightarrow> world \<Rightarrow> nat option" where
  "os_Tell fd w = map_option snd (open_files w fd)"

definition os_Stat :: "string \<Rightarrow> world \<Rightarrow> nat option" where
  "os_Stat name w =
     (case files w name of
        None \<Rightarrow> None
      | Some (Denied ino) \<Rightarrow> Some (length (inodes w ino))
      | Some (Regular ino) \<Rightarrow> Some (length (inodes w ino)))"

text \<open>
  \<^verbatim>\<open>filepath.Clean\<close> on a system whose separator is the slash: empty elements and
  \<^verbatim>\<open>.\<close> elements are dropped, \<^verbatim>\<open>..\<close> removes the element before it (at the root it is
  dropped, in front of a relative path it stays), and the empty result is \<^verbatim>\<open>.\<close>.
  \<open>clean_step\<close> keeps the elements written so far, the last one first.
\<close>

fun split_slash :: "string \<Rightarrow> string list" where
  "split_slash [] = [[]]"
| "split_slash (c # cs) =
     (if c = CHR ''/'' then [] # split_slash cs
      else (case split_slash cs of e # es \<Rightarrow> (c # e) # es | [] \<Rightarrow> [[c]]))"

fun join_slash :: "string list \<Rightarrow> string" where
  "join_slash [] = []"
| "join_slash [e] = e"
| "join_slash (e # es) = e @ ''/'' @ join_slash es"

definition clean_step :: "bool \<Rightarrow> string list \<Rightarrow> string \<Rightarrow> string list" where
  "clean_step rooted st e =
     (if e = [] \<or> e = ''.'' then st
      else if e = ''..'' then
        (case st of
           [] \<Rightarrow> (if rooted then [] else [''..''])
         | e' # r \<Rightarrow> (if e' = ''..'' then ''..'' # st else r))
      else e # st)"

definition Clean :: "string \<Rightarrow> string" where
  "Clean path =
     (if path = [] then ''.''
      else
        let rooted = (hd path = CHR ''/'');
            st = foldl (clean_step rooted) [] (split_slash path)
        in if rooted then CHR ''/'' # join_slash (rev st)
           else if st = [] then ''.'' else join_slash (rev st))"

text \<open>
  \<^verbatim>\<open>filepath.Join\<close> of two elements: from the first element that is not empty on, the
  elements are joined by a slash and the result is cleaned; two empty elements give the
  empty string.
\<close>

definition Join :: "string \<Rightarrow> string \<Rightarrow> string" where
  "Join dir name =
     (if dir \<noteq> [] then Clean (dir @ ''/'' @ name)
      else if name \<noteq> [] then Clean name
      else [])"

text \<open>
  \<^verbatim>\<open>bufio.Scanner\<close> with the default split function \<^verbatim>\<open>ScanLines\<close> and the default
  buffer: a token is the text up to the next line feed, without the line feed and
  without one trailing carriage return; the text after the last line feed is a token too
  when it is not empty. A token that does not fit the buffer of \<open>MaxScanTokenSize\<close>
  bytes (the buffer is full and holds no line feed) ends the scan with the error
  \<^verbatim>\<open>ErrTooLong\<close>, the handle standing after the bytes read into the buffer.

  \<open>scan_lines data\<close> is the list of tokens, whether the scan ended in an error, and the
  number of bytes read from the handle.
\<close>

definition MaxScanTokenSize :: nat where
  "MaxScanTokenSize = 64 * 1024"

definition dropCR :: "string \<Rightarrow> string" where
  "dropCR s = (if s \<noteq> [] \<and> last s = CHR 0x0D then butlast s else s)"

function scan_lines :: "string \<Rightarrow> string list \<times> bool \<times> nat" where
  "scan_lines data =
     (if data = [] then ([], False, 0)
      else
        let line = takeWhile (\<lambda>c. c \<noteq> newline) data;
            rest = dropWhile (\<lambda>c. c \<noteq> newline) data
        in if length line \<ge> MaxScanTokenSize then ([], True, MaxScanTokenSize)
           else if rest = [] then ([dropCR line], False, length line)
           else
             let (toks, err, n) = scan_lines (tl rest)
             in (dropCR line # toks, err, length line + 1 + n))"
  by pat_completeness auto
termination
proof (relation "measure length")
  show "wf (measure length)" by simp
next
  fix data :: string and x xa
  assume "data \<noteq> []" and "xa = dropWhile (\<lambda>c. c \<noteq> newline) data" and "xa \<noteq> []"
  then have "length (tl xa) < length xa" by (cases xa) simp_all
  moreover have "length xa \<le> length data"
    using \<open>xa = dropWhile (\<lambda>c. c \<noteq> newline) data\<close> by (simp add: length_dropWhile_le)
  ultimately show "(tl xa, data) \<in> measure length" by simp
qed

declare scan_lines.simps [simp del]

text \<open>
  Scanning an open handle reads from its position and leaves it after the bytes read.
  Read errors of the device are not modelled; a handle that is not open gives an error.
\<close>

definition scan_fd :: "nat \<Rightarrow> world \<Rightarrow> string list \<times> bool \<times> world" where
  "scan_fd fd w =
     (case open_files w fd of
        None \<Rightarrow> ([], True, w)
      | Some (ino, pos) \<Rightarrow>
          let (toks, err, n) = scan_lines (drop pos (inodes w ino))
          in (toks, err, w\<lparr>open_files := (open_files w)(fd \<mapsto> (ino, pos + n))\<rparr>))"

text \<open>The loop \<^verbatim>\<open>for scanner.Scan() { parseAndStore(scanner.Text(), db) }\<close>.\<close>

definition process_lines :: "string list \<Rightarrow> world \<Rightarrow> world" where
  "process_lines toks w = foldl (\<lambda>w line. parseAndStore line w) w toks"

definition processSingleFile :: "string \<Rightarrow> world \<Rightarrow> world" where
  "processSingleFile filePath w =
     (case os_Open filePath w of
        (Inl err, w1) \<Rightarrow>
          if err \<noteq> ErrNotExist then log_Printf (LogOpenError filePath) w1 else w1
      | (Inr fd, w1) \<Rightarrow>
          let (toks, err, w2) = scan_fd fd w1;
              w3 = process_lines toks w2;
              w4 = (if err then log_Printf (LogReadError filePath) w3 else w3)
          in os_Close fd w4)"

section \<open>processHistoricalLogs\<close>

text \<open>
  The pattern is \<^verbatim>\<open>fmt.Sprintf(`^%s\.(\d+)$`, mainLogName)\<close>: the name of the live log
  is pasted into the pattern as it is, so it is read as a regular expression. The model
  covers the live names in which the period is the only character with a meaning of its
  own in a pattern: names of ASCII characters other than
  \<^verbatim>\<open>\ + * ? ( ) | [ ] { } ^ $\<close>, such as the default \<^verbatim>\<open>stdout-xx.txt\<close>. For any other
  live name the pattern (or the panic of \<^verbatim>\<open>MustCompile\<close>) is outside the model, and the
  functions of this section return \<open>None\<close>.
\<close>

definition literal_name :: "string \<Rightarrow> bool" where
  "literal_name n =
     list_all (\<lambda>c. (of_char c :: nat) < 128
                 \<and> c \<notin> set [CHR 0x5C, CHR ''+'', CHR ''*'', CHR ''?'', CHR ''('', CHR '')'',
                             CHR ''|'', CHR ''['', CHR '']'', CHR ''{'', CHR ''}'', CHR ''^'',
                             CHR ''$'']) n"

text \<open>
  The pattern is matched against the runes of the file name. \<open>rune_len\<close> is the
  number of bytes of the first rune of a text, as \<^verbatim>\<open>utf8.DecodeRuneInString\<close> gives it:
  the length of a well-formed UTF-8 sequence, and 1 for a byte that starts none.
\<close>

definition byte_in :: "nat \<Rightarrow> nat \<Rightarrow> char \<Rightarrow> bool" where
  "byte_in lo hi c = (lo \<le> (of_char c :: nat) \<and> (of_char c :: nat) \<le> hi)"

fun follows :: "nat \<Rightarrow> nat \<Rightarrow> nat \<Rightarrow> string \<Rightarrow> bool" where
  "follows lo hi 0 cs = True"
| "follows lo hi (Suc n) [] = False"
| "follows lo hi (Suc n) (c # cs) = (byte_in lo hi c \<and> follows 128 191 n cs)"

definition rune_len :: "string \<Rightarrow> nat" where
  "rune_len s =
     (case s of
        [] \<Rightarrow> 0
      | c # cs \<Rightarrow>
          if byte_in 194 223 c \<and> follows 128 191 1 cs then 2
          else if byte_in 224 224 c \<and> follows 160 191 2 cs then 3
          else if (byte_in 225 236 c \<or> byte_in 238 239 c) \<and> follows 128 191 2 cs then 3
          else if byte_in 237 237 c \<and> follows 128 159 2 cs then 3
          else if byte_in 240 240 c \<and> follows 144 191 3 cs then 4
          else if byte_in 241 243 c \<and> follows 128 191 3 cs then 4
          else if byte_in 244 244 c \<and> follows 128 143 3 cs then 4
          else 1)"

text \<open>
  \<open>name_match\<close> matches the name's part of the pattern at the start of a file name
  and returns what follows: a period of the live name takes one rune that is not a line
  feed, any other character takes itself.
\<close>

fun name_match :: "string \<Rightarrow> string \<Rightarrow> string option" where
  "name_match [] s = Some s"
| "name_match (p # ps) [] = None"
| "name_match (p # ps) (c # cs) =
     (if p = CHR ''.''
      then (if c = newline then None else name_match ps (drop (rune_len (c # cs)) (c # cs)))
      else (if c = p then name_match ps cs else None))"

text \<open>
  \<open>historical_suffix\<close> is the group \<^verbatim>\<open>(\d+)\<close> of the match of a file name, if the
  pattern matches it: after the name a period and one or more decimal digits, up to the
  end.
\<close>

definition historical_suffix :: "string \<Rightarrow> string \<Rightarrow> string option" where
  "historical_suffix mainLogName name =
     (case name_match mainLogName name of
        None \<Rightarrow> None
      | Some r \<Rightarrow>
          if r \<noteq> [] \<and> hd r = CHR ''.'' \<and> tl r \<noteq> [] \<and> list_all isDigit (tl r)
          then Some (tl r) else None)"

definition suffix_number :: "string \<Rightarrow> string \<Rightarrow> int" where
  "suffix_number mainLogName name =
     fst (Atoi (case historical_suffix mainLogName name of Some ds \<Rightarrow> ds | None \<Rightarrow> []))"

text \<open>
  The names kept by the loop over the directory entries, sorted by the number of the
  suffix. \<^verbatim>\<open>sort.Slice\<close> promises no order among names with equal numbers; the model
  keeps them in the order of the directory listing.
\<close>

definition historicalLogs :: "string \<Rightarrow> (string \<times> bool) list \<Rightarrow> string list option" where
  "historicalLogs mainLogName entries =
     (if literal_name mainLogName
      then Some (sort_key (suffix_number mainLogName)
             (map fst (filter (\<lambda>(name, isDir).
                                 \<not> isDir \<and> historical_suffix mainLogName name \<noteq> None)
                         entries)))
      else None)"

text \<open>The pattern is compiled after the directory has been read.\<close>

definition processHistoricalLogs :: "string \<Rightarrow> string \<Rightarrow> world \<Rightarrow> world option" where
  "processHistoricalLogs logDir mainLogName w =
     (let w0 = log_Printf LogHistoricalStart w
      in case dirs w0 logDir of
           None \<Rightarrow> Some (log_Printf (LogReadDirError logDir) w0)
         | Some entries \<Rightarrow>
             map_option
               (\<lambda>names.
                  log_Printf LogHistoricalDone
                    (foldl (\<lambda>w fileName.
                              processSingleFile (Join logDir fileName)
                                (log_Printf (LogProcessingHistorical (Join logDir fileName)) w))
                       w0 names))
               (historicalLogs mainLogName entries))"

text \<open>Steps 1 and 2 of \<^verbatim>\<open>main\<close>: the historical files, then the live file as a whole.\<close>

definition startup :: "bool \<Rightarrow> string \<Rightarrow> string \<Rightarrow> world \<Rightarrow> world option" where
  "startup skipHistorical logDir mainLogName w =
     (if \<not> skipHistorical
      then map_option (processSingleFile (Join logDir mainLogName))
             (processHistoricalLogs logDir mainLogName w)
      else Some w)"

section \<open>watchLogFile\<close>

text \<open>
  The two local variables of \<^verbatim>\<open>watchLogFile\<close>: the handle \<^verbatim>\<open>file\<close> (\<^verbatim>\<open>nil\<close> is
  \<open>None\<close>) and the saved read position.
\<close>

record tailer =
  file_handle :: "nat option"
  currentPos :: nat

text \<open>A notification of \<^verbatim>\<open>fsnotify\<close>: the path and the set of operations as a bit mask.\<close>

record event =
  Name :: string
  Op :: "32 word"

definition Create :: "32 word" where
  "Create = 1"

definition Write :: "32 word" where
  "Write = 2"

definition Remove :: "32 word" where
  "Remove = 4"

definition Rename :: "32 word" where
  "Rename = 8"

definition Chmod :: "32 word" where
  "Chmod = 16"

definition openAndSeek :: "string \<Rightarrow> tailer \<times> world \<Rightarrow> tailer \<times> world" where
  "openAndSeek filePath s =
     (let (t, w) = s
      in case os_Open filePath w of
           (Inl err, w1) \<Rightarrow> (t\<lparr>file_handle := None\<rparr>, log_Printf (LogWatchOpenError filePath) w1)
         | (Inr fd, w1) \<Rightarrow> (t\<lparr>file_handle := Some fd\<rparr>, os_Seek fd (currentPos t) w1))"

text \<open>The start of \<^verbatim>\<open>watchLogFile\<close>: the position is the size of the file, if it exists.\<close>

definition watch_init :: "string \<Rightarrow> world \<Rightarrow> tailer \<times> world" where
  "watch_init filePath w =
     openAndSeek filePath
       (\<lparr>file_handle = None,
         currentPos = (case os_Stat filePath w of Some n \<Rightarrow> n | None \<Rightarrow> 0)\<rparr>, w)"

text \<open>The branch for a notification with the bit \<^verbatim>\<open>Create\<close>.\<close>

definition on_create :: "string \<Rightarrow> tailer \<times> world \<Rightarrow> tailer \<times> world" where
  "on_create filePath s =
     (let (t, w) = s;
          w1 = log_Printf LogRotation w;
          w2 = (case file_handle t of Some fd \<Rightarrow> os_Close fd w1 | None \<Rightarrow> w1)
      in openAndSeek filePath (t\<lparr>currentPos := 0\<rparr>, w2))"

text \<open>
  The branch for a notification with the bit \<^verbatim>\<open>Write\<close>; \<^verbatim>\<open>continue\<close> leaves the
  state as it is after the failed attempt to open the file.
\<close>

definition on_write :: "string \<Rightarrow> tailer \<times> world \<Rightarrow> tailer \<times> world" where
  "on_write filePath s =
     (let (t1, w1) = (if file_handle (fst s) = None then openAndSeek filePath s else s)
      in case file_handle t1 of
           None \<Rightarrow> (t1, w1)
         | Some fd \<Rightarrow>
             let (toks, err, w2) = scan_fd fd w1;
                 w3 = process_lines toks w2;
                 w4 = (if err then log_Printf LogWatchReadError w3 else w3)
             in case os_Tell fd w4 of
                  Some pos \<Rightarrow> (t1\<lparr>currentPos := pos\<rparr>, w4)
                | None \<Rightarrow> (t1, w4))"

text \<open>One turn of the loop for a notification received on \<^verbatim>\<open>watcher.Events\<close>.\<close>

definition handle_event :: "string \<Rightarrow> event \<Rightarrow> tailer \<times> world \<Rightarrow> tailer \<times> world" where
  "handle_event filePath ev s =
     (if Name ev \<noteq> filePath then s
      else
        let s1 = (if Op ev AND Create = Create then on_create filePath s else s)
        in if Op ev AND Write = Write then on_write filePath s1 else s1)"

section \<open>ensureIndexes\<close>

text \<open>Building the unique index on \<^verbatim>\<open>height\<close>.\<close>

definition CreateOne ::
  "('a \<Rightarrow> int) \<Rightarrow> bool \<Rightarrow> 'a collection \<Rightarrow> db_error option \<times> 'a collection" where
  "CreateOne key fault c =
     (if fault then (Some OtherError, c)
      else case height_index c of
             UniqueIndex \<Rightarrow> (None, c)
           | PlainIndex \<Rightarrow> (Some IndexOptionsConflict, c)
           | NoIndex \<Rightarrow>
               if distinct (heights key c) then (None, c\<lparr>height_index := UniqueIndex\<rparr>)
               else (Some DuplicateKey, c))"

text \<open>
  The pipeline of \<^verbatim>\<open>removeDuplicates\<close>: \<^verbatim>\<open>$group\<close> by height, pushing the \<^verbatim>\<open>_id\<close> of
  every document of the group in the order of the collection and counting them, then
  \<^verbatim>\<open>$match\<close> keeping the groups with a count above one.
\<close>

fun group_by_height :: "('a \<Rightarrow> int) \<Rightarrow> (nat \<times> 'a) list \<Rightarrow> (int \<times> nat list \<times> nat) list" where
  "group_by_height key [] = []"
| "group_by_height key ((i, d) # ds) =
     (let same = filter (\<lambda>(j, e). key e = key d) ds;
          others = filter (\<lambda>(j, e). key e \<noteq> key d) ds
      in (key d, i # map fst same, Suc (length same)) # group_by_height key others)"

definition Aggregate ::
  "('a \<Rightarrow> int) \<Rightarrow> bool \<Rightarrow> 'a collection \<Rightarrow> db_error + (int \<times> nat list \<times> nat) list" where
  "Aggregate key fault c =
     (if fault then Inl OtherError
      else Inr (filter (\<lambda>(h, ids, count). count > 1) (group_by_height key (docs c))))"

fun delete_first :: "nat \<Rightarrow> (nat \<times> 'a) list \<Rightarrow> (nat \<times> 'a) list" where
  "delete_first i [] = []"
| "delete_first i ((j, d) # ds) = (if j = i then ds else (j, d) # delete_first i ds)"

definition DeleteOne :: "bool \<Rightarrow> nat \<Rightarrow> 'a collection \<Rightarrow> db_error option \<times> 'a collection" where
  "DeleteOne fault i c =
     (if fault then (Some OtherError, c) else (None, c\<lparr>docs := delete_first i (docs c)\<rparr>))"

text \<open>
  The functions on a collection take and return the pending faults, the log and the
  collection. \<open>delete_id\<close> is the body of the inner loop of \<^verbatim>\<open>removeDuplicates\<close>; its
  state has the counter \<^verbatim>\<open>duplicateCount\<close> in addition. The cursor over the groups is
  taken to deliver every group (it does not fail on the way, and every group decodes).
\<close>

definition delete_id ::
  "bool list \<times> log_msg list \<times> nat \<times> 'a collection \<Rightarrow> nat
     \<Rightarrow> bool list \<times> log_msg list \<times> nat \<times> 'a collection" where
  "delete_id st i =
     (let (fs, lg, duplicateCount, c) = st;
          (fault, fs1) = pop_fault fs;
          (err, c1) = DeleteOne fault i c
      in case err of
           Some e \<Rightarrow> (fs1, lg @ [LogDeleteError], duplicateCount, c1)
         | None \<Rightarrow> (fs1, lg, Suc duplicateCount, c1))"

definition removeDuplicates ::
  "('a \<Rightarrow> int) \<Rightarrow> bool list \<times> log_msg list \<times> 'a collection
     \<Rightarrow> db_error option \<times> bool list \<times> log_msg list \<times> 'a collection" where
  "removeDuplicates key ctx =
     (let (fs, lg, c) = ctx;
          (fault, fs1) = pop_fault fs
      in case Aggregate key fault c of
           Inl e \<Rightarrow> (Some e, fs1, lg, c)
         | Inr groups \<Rightarrow>
             let (fs2, lg2, duplicateCount, c2) =
                   foldl (\<lambda>st (h, ids, count).
                            if length ids > 1 then foldl delete_id st (tl ids) else st)
                     (fs1, lg, 0, c) groups
             in (None, fs2,
                 (if duplicateCount > 0 then lg2 @ [LogCleaned duplicateCount] else lg2), c2))"

datatype index_failure = CreateFailed db_error | CleanupFailed db_error | RetryFailed db_error

definition createUniqueIndex ::
  "('a \<Rightarrow> int) \<Rightarrow> string \<Rightarrow> bool list \<times> log_msg list \<times> 'a collection
     \<Rightarrow> index_failure option \<times> bool list \<times> log_msg list \<times> 'a collection" where
  "createUniqueIndex key collectionName ctx =
     (let (fs, lg, c) = ctx;
          (fault, fs1) = pop_fault fs;
          (err, c1) = CreateOne key fault c
      in case err of
           None \<Rightarrow> (None, fs1, lg @ [LogIndexCreated collectionName], c1)
         | Some e \<Rightarrow>
             if e = DuplicateKey then
               (case removeDuplicates key (fs1, lg @ [LogDuplicatesFound collectionName], c1) of
                  (Some e2, fs2, lg2, c2) \<Rightarrow> (Some (CleanupFailed e2), fs2, lg2, c2)
                | (None, fs2, lg2, c2) \<Rightarrow>
                    (let (fault3, fs3) = pop_fault fs2;
                         (err3, c3) = CreateOne key fault3 c2
                     in case err3 of
                          Some e3 \<Rightarrow> (Some (RetryFailed e3), fs3, lg2, c3)
                        | None \<Rightarrow> (None, fs3, lg2 @ [LogIndexCreated collectionName], c3)))
             else if e = IndexOptionsConflict then
               (None, fs1, lg @ [LogIndexExists collectionName], c1)
             else (Some (CreateFailed e), fs1, lg, c1))"

text \<open>
  \<^verbatim>\<open>ensureIndexes\<close>: both collections in turn; \<^verbatim>\<open>log.Fatalf\<close> ends the process, which
  is the result \<open>None\<close>.
\<close>

definition ensureIndexes :: "world \<Rightarrow> world option" where
  "ensureIndexes w =
     (case createUniqueIndex Height ''committed_state'' (db_faults w, logs w, committed_state w) of
        (Some e, ctx) \<Rightarrow> None
      | (None, fs1, lg1, c1) \<Rightarrow>
          (case createUniqueIndex GapHeight ''block_time_gap'' (fs1, lg1, block_time_gap w) of
             (Some e, ctx) \<Rightarrow> None
           | (None, fs2, lg2, c2) \<Rightarrow>
               Some (w\<lparr>db_faults := fs2, logs := lg2, committed_state := c1,
                       block_time_gap := c2\<rparr>)))"

section \<open>The reading of the specification used for comparison\<close>

text \<open>
  What the repair pass is said to leave: of the documents of each height, the first one
  in the order of the collection.
\<close>

fun first_of_each_height :: "('a \<Rightarrow> int) \<Rightarrow> (nat \<times> 'a) list \<Rightarrow> (nat \<times> 'a) list" where
  "first_of_each_height key [] = []"
| "first_of_each_height key ((i, d) # ds) =
     (i, d) # first_of_each_height key (filter (\<lambda>(j, e). key e \<noteq> key d) ds)"

section \<open>Notions used in the statements\<close>

text \<open>The number written by a string of decimal digits.\<close>

definition decimal_value :: "string \<Rightarrow> int" where
  "decimal_value ds = foldl (\<lambda>a c. a * 10 + digit_val c) 0 ds"

text \<open>Whether the two characters that open the pattern occur somewhere in a text.\<close>

fun contains_opening :: "string \<Rightarrow> bool" where
  "contains_opening (c # d # r) = ((c = CHR ''I'' \<and> d = CHR ''['') \<or> contains_opening (d # r))"
| "contains_opening r = False"




text \<open>The documents left after deleting by \<^verbatim>\<open>_id\<close>, one identifier after the other.\<close>

definition delete_all :: "nat list \<Rightarrow> (nat \<times> 'a) list \<Rightarrow> (nat \<times> 'a) list" where
  "delete_all ids ds = foldl (\<lambda>ds i. delete_first i ds) ds ids"

text \<open>The same for all identifiers but the first of every group.\<close>

definition delete_tails ::
  "(int \<times> nat list \<times> nat) list \<Rightarrow> (nat \<times> 'a) list \<Rightarrow> (nat \<times> 'a) list" where
  "delete_tails groups ds = foldl (\<lambda>ds (h, ids, count). delete_all (tl ids) ds) ds groups"

section \<open>Example inputs\<close>

text \<open>A process that has just started, with both indexes in place and an empty directory.\<close>

definition fresh_world :: world where
  "fresh_world =
     \<lparr>lastCommittedState = None,
      committed_state = \<lparr>docs = [], height_index = UniqueIndex\<rparr>,
      block_time_gap = \<lparr>docs = [], height_index = UniqueIndex\<rparr>,
      logs = [], db_faults = [],
      files = (\<lambda>name. None), dirs = (\<lambda>name. None), inodes = (\<lambda>ino. []),
      open_files = (\<lambda>fd. None), next_fd = 3\<rparr>"

definition line10 :: string where
  "line10 = ''I[2024-01-01|00:00:05.000] Committed State module=x height=10 txs=3 appHash=abc''"

definition line11 :: string where
  "line11 = ''I[2024-01-01|00:00:11.000] Committed State module=x height=11 txs=1 appHash=def''"

definition event10 :: CommittedState where
  "event10 = \<lparr>Timestamp = 63839664005000000000, Module = ''x'', Height = 10, Txs = 3,
              AppHash = ''abc''\<rparr>"

definition event11 :: CommittedState where
  "event11 = \<lparr>Timestamp = 63839664011000000000, Module = ''x'', Height = 11, Txs = 1,
              AppHash = ''def''\<rparr>"

definition world_after_10 :: world where
  "world_after_10 = parseAndStore line10 fresh_world"

text \<open>The same state with a fault of the store pending for the next call.\<close>

definition faulty_world :: world where
  "faulty_world = world_after_10\<lparr>db_faults := [True]\<rparr>"

definition gap_10_11 :: BlockTimeGap where
  "gap_10_11 = \<lparr>GapTimestamp = 63839664011000000000, GapHeight = 11, GapTxs = 1, TimeDiff = 6,
                PreviousHeight = 10\<rparr>"


definition line_bad :: string where
  "line_bad = ''I[yesterday] Committed State module=x height=1x txs=-5 appHash= abc ''"

text \<open>
  The live file holds the two example lines; the process has stored the first and its
  handle stands after it.
\<close>

definition live_path :: string where
  "live_path = ''logs/stdout-xx.txt''"

definition tail_world :: world where
  "tail_world =
     world_after_10
       \<lparr>files := [live_path \<mapsto> Regular 1],
        inodes := (\<lambda>ino. if ino = 1 then (line10 @ [newline]) @ (line11 @ [newline]) else []),
        open_files := [3 \<mapsto> (1, length (line10 @ [newline]))],
        next_fd := 4\<rparr>"


text \<open>The same without a handle, and with the file gone as well.\<close>

definition reopen_world :: world where
  "reopen_world = tail_world\<lparr>open_files := Map.empty\<rparr>"

definition gone_world :: world where
  "gone_world = reopen_world\<lparr>files := Map.empty\<rparr>"

definition lost_state :: tailer where
  "lost_state = \<lparr>file_handle = None, currentPos = length (line10 @ [newline])\<rparr>"

definition write_event :: event where
  "write_event = \<lparr>Name = live_path, Op = Write\<rparr>"

definition create_event :: event where
  "create_event = \<lparr>Name = live_path, Op = Create\<rparr>"

definition other_event :: event where
  "other_event = \<lparr>Name = ''logs/stdout-xx.txt.1'', Op = Create OR Write\<rparr>"




text \<open>
  A log directory: the live file, one rotated file, a file whose name differs from the
  live name in the place of its period, and a file that cannot be opened.
\<close>

definition disk_world :: world where
  "disk_world =
     fresh_world
       \<lparr>files := [''logs/stdout-xx.txt'' \<mapsto> Regular 1, ''logs/stdout-xx.txt.2'' \<mapsto> Regular 2,
                  ''logs/stdout-xxxtxt.1'' \<mapsto> Regular 3, ''logs/locked.txt'' \<mapsto> Denied 4],
        dirs := [''logs'' \<mapsto> [(''locked.txt'', False), (''stdout-xx.txt'', False),
                                (''stdout-xx.txt.2'', False), (''stdout-xxxtxt.1'', False)]],
        inodes := (\<lambda>ino. if ino = 2 then line11 @ [newline]
                          else if ino = 3 then line10 @ [newline] else [])\<rparr>"

text \<open>Two documents of height 100, as left behind by a run without the index.\<close>

definition twice_100 :: "CommittedState collection" where
  "twice_100 =
     \<lparr>docs = [(1, event10\<lparr>Height := 100\<rparr>), (2, event11\<lparr>Height := 100\<rparr>)],
      height_index = NoIndex\<rparr>"

text \<open>The event of the line whose fields do not parse, and the gap stored after it.\<close>

definition bad_event :: CommittedState where
  "bad_event = \<lparr>Timestamp = 0, Module = ''x'', Height = 0, Txs = - 5, AppHash = ''abc''\<rparr>"

definition saturated_gap :: BlockTimeGap where
  "saturated_gap =
     \<lparr>GapTimestamp = 63839664005000000000, GapHeight = 10, GapTxs = 3,
      TimeDiff = 9223372036854775807 / 1000000000, PreviousHeight = 0\<rparr>"

section \<open>Evaluation of the examples\<close>

lemmas regex_defs = committedStateRegex_def lit_def lazy_dot_def dot_star_def newline_def
  is_space_def

lemmas parse_defs = parse_entry_def time_Parse_def require_def isDigit_def digit_val_def skip_def
  parseNanoseconds_def daysIn_def Date_def daysBefore_def isLeap_def ParseInt_def ParseUint_def
  Atoi_def TrimSpace_def space_seqs_def maxUint64_def maxInt64_def minInt64_def

lemma find_line10:
  "FindStringSubmatch line10 =
     [line10, ''2024-01-01|00:00:05.000'', ''x'', ''10'', ''3'', ''abc'']"
  by (simp add: line10_def regex_defs)

lemma find_line11:
  "FindStringSubmatch line11 =
     [line11, ''2024-01-01|00:00:11.000'', ''x'', ''11'', ''1'', ''def'']"
  by (simp add: line11_def regex_defs)

lemma entry_line10: "parse_entry (FindStringSubmatch line10) = event10"
  by (simp add: find_line10 event10_def parse_defs)

lemma entry_line11: "parse_entry (FindStringSubmatch line11) = event11"
  by (simp add: find_line11 event11_def parse_defs)

section \<open>One line through parseAndStore\<close>

lemma next_fault_eq:
  "next_fault w =
     (case db_faults w of [] \<Rightarrow> False | f # fs \<Rightarrow> f, w\<lparr>db_faults := tl (db_faults w)\<rparr>)"
  by (cases "db_faults w") (simp_all add: next_fault_def pop_fault_def)

lemmas step_defs = store_committed_def check_gap_def next_fault_eq InsertOne_def log_Printf_def
  IsDuplicateKeyError_def Let_def

lemma store_committed_other [simp]:
  "lastCommittedState (store_committed e w) = lastCommittedState w"
  "block_time_gap (store_committed e w) = block_time_gap w"
  "db_faults (store_committed e w) = tl (db_faults w)"
  by (simp_all add: step_defs split: option.splits list.splits)

lemma check_gap_committed [simp]:
  "committed_state (check_gap e w) = committed_state w"
  by (simp add: step_defs split: option.splits list.splits prod.splits)

lemma check_gap_indep:
  "check_gap e (w\<lparr>committed_state := c\<rparr>) = (check_gap e w)\<lparr>committed_state := c\<rparr>"
  by (simp add: step_defs split: option.splits list.splits prod.splits)

lemma parseAndStore_match:
  "FindStringSubmatch line \<noteq> [] \<Longrightarrow>
   parseAndStore line w =
     (check_gap (parse_entry (FindStringSubmatch line))
        (store_committed (parse_entry (FindStringSubmatch line)) w))
     \<lparr>lastCommittedState := Some (parse_entry (FindStringSubmatch line))\<rparr>"
  by (simp add: parseAndStore_def Let_def)

lemma parseAndStore_no_match:
  "FindStringSubmatch line = [] \<Longrightarrow> parseAndStore line w = w"
  by (simp add: parseAndStore_def Let_def)

lemma store_committed_fault:
  "db_faults w = True # fs \<Longrightarrow>
   store_committed e w = w\<lparr>db_faults := fs, logs := logs w @ [LogCommittedWriteError]\<rparr>"
  by (simp add: step_defs)

lemma store_committed_duplicate:
  assumes "db_faults w = [] \<or> \<not> hd (db_faults w)"
    and "height_index (committed_state w) = UniqueIndex"
    and "Height e \<in> set (heights Height (committed_state w))"
  shows "store_committed e w = w\<lparr>db_faults := tl (db_faults w)\<rparr>"
  using assms by (cases "db_faults w") (auto simp add: step_defs)

lemma store_committed_success:
  assumes "db_faults w = [] \<or> \<not> hd (db_faults w)"
    and "\<not> (height_index (committed_state w) = UniqueIndex
          \<and> Height e \<in> set (heights Height (committed_state w)))"
  shows "store_committed e w =
     w\<lparr>db_faults := tl (db_faults w),
       committed_state := (committed_state w)
         \<lparr>docs := docs (committed_state w) @ [(fresh_id (docs (committed_state w)), e)]\<rparr>\<rparr>"
  using assms by (cases "db_faults w") (auto simp add: step_defs)

lemma check_gap_logs:
  "\<exists>ms. logs (check_gap e w) = logs w @ ms \<and> LogCommittedWriteError \<notin> set ms"
  by (simp add: step_defs split: option.splits list.splits prod.splits)

lemma run_line10:
  "parseAndStore line10 fresh_world =
     fresh_world\<lparr>lastCommittedState := Some event10,
                 committed_state := \<lparr>docs = [(0, event10)], height_index = UniqueIndex\<rparr>\<rparr>"
proof -
  have m: "FindStringSubmatch line10 \<noteq> []" by (simp add: find_line10)
  show ?thesis
    unfolding parseAndStore_match [OF m] entry_line10
    by (simp add: step_defs fresh_world_def heights_def fresh_id_def)
qed

lemma gap_seconds: "Seconds (Sub 63839664011000000000 63839664005000000000) = 6"
  by (simp add: Sub_def Seconds_def maxInt64_def minInt64_def)

lemma run_line11:
  "parseAndStore line11 world_after_10 =
     fresh_world\<lparr>lastCommittedState := Some event11,
                 committed_state :=
                   \<lparr>docs = [(0, event10), (1, event11)], height_index = UniqueIndex\<rparr>,
                 block_time_gap := \<lparr>docs = [(0, gap_10_11)], height_index = UniqueIndex\<rparr>,
                 logs := [LogGapDetected 6 10 11 1]\<rparr>"
proof -
  have m: "FindStringSubmatch line11 \<noteq> []" by (simp add: find_line11)
  have h: "Height event10 = 10" "Height event11 = 11" "Txs event11 = 1"
    "Timestamp event11 = 63839664011000000000" "Timestamp event10 = 63839664005000000000"
    by (simp_all add: event10_def event11_def)
  show ?thesis
    unfolding parseAndStore_match [OF m] entry_line11 world_after_10_def run_line10
    by (simp add: step_defs fresh_world_def heights_def fresh_id_def gap_seconds h gap_10_11_def)
qed

lemma run_line11_faulty:
  "parseAndStore line11 faulty_world =
     fresh_world\<lparr>lastCommittedState := Some event11,
                 committed_state := \<lparr>docs = [(0, event10)], height_index = UniqueIndex\<rparr>,
                 block_time_gap := \<lparr>docs = [(0, gap_10_11)], height_index = UniqueIndex\<rparr>,
                 logs := [LogCommittedWriteError, LogGapDetected 6 10 11 1]\<rparr>"
proof -
  have m: "FindStringSubmatch line11 \<noteq> []" by (simp add: find_line11)
  have h: "Height event10 = 10" "Height event11 = 11" "Txs event11 = 1"
    "Timestamp event11 = 63839664011000000000" "Timestamp event10 = 63839664005000000000"
    by (simp_all add: event10_def event11_def)
  show ?thesis
    unfolding parseAndStore_match [OF m] entry_line11 faulty_world_def world_after_10_def run_line10
    by (simp add: step_defs fresh_world_def heights_def fresh_id_def gap_seconds h gap_10_11_def)
qed

section \<open>The held state of the gap detector\<close>

text \<open>
  Claim C7, as amended. The state held for the gap check is the last event that was
  parsed, whether or not it was stored: after any matching line the held state is the
  event of that line, also when its insert fails for a reason other than a duplicate key
  (the collection is then unchanged and the error is logged).
\<close>

theorem held_state_is_last_parsed_event:
  assumes "FindStringSubmatch line \<noteq> []"
  shows "lastCommittedState (parseAndStore line w) = Some (parse_entry (FindStringSubmatch line))
    \<and> (\<forall>fs. db_faults w = True # fs \<longrightarrow>
          committed_state (parseAndStore line w) = committed_state w
          \<and> LogCommittedWriteError \<in> set (logs (parseAndStore line w)))"
proof -
  let ?e = "parse_entry (FindStringSubmatch line)"
  have "lastCommittedState (parseAndStore line w) = Some ?e"
    using assms by (simp add: parseAndStore_match)
  moreover have "committed_state (parseAndStore line w) = committed_state w
      \<and> LogCommittedWriteError \<in> set (logs (parseAndStore line w))"
    if "db_faults w = True # fs" for fs
  proof -
    obtain ms where "logs (check_gap ?e (store_committed ?e w)) = logs (store_committed ?e w) @ ms"
      using check_gap_logs by blast
    then show ?thesis
      using assms that by (simp add: parseAndStore_match store_committed_fault)
  qed
  ultimately show ?thesis by blast
qed

theorem held_state_is_last_parsed_event_witness:
  "FindStringSubmatch line11 \<noteq> [] \<and> db_faults faulty_world = [True]
   \<and> lastCommittedState (parseAndStore line11 faulty_world) = Some event11
   \<and> committed_state (parseAndStore line11 faulty_world) = committed_state faulty_world
   \<and> LogCommittedWriteError \<in> set (logs (parseAndStore line11 faulty_world))"
proof -
  have m: "FindStringSubmatch line11 \<noteq> []" by (simp add: find_line11)
  have f: "db_faults faulty_world = [True]" by (simp add: faulty_world_def)
  show ?thesis
    using held_state_is_last_parsed_event [OF m, of faulty_world] m f
    by (simp add: entry_line11)
qed

text \<open>
  The claim as it was stated fails: the second example line is processed while the store
  reports a fault, so the event of height 11 is not stored, and yet it becomes the held
  state; the last event that was stored is the one of height 10.
\<close>

theorem held_state_not_last_stored_counterexample:
  "map snd (docs (committed_state (parseAndStore line11 faulty_world))) = [event10]
   \<and> lastCommittedState (parseAndStore line11 faulty_world) = Some event11
   \<and> event11 \<noteq> event10"
  by (simp add: run_line11_faulty event10_def event11_def)

lemma world_after_10_fields:
  "lastCommittedState world_after_10 = Some event10"
  "db_faults world_after_10 = []"
  "logs world_after_10 = []"
  "committed_state world_after_10 = \<lparr>docs = [(0, event10)], height_index = UniqueIndex\<rparr>"
  "block_time_gap world_after_10 = \<lparr>docs = [], height_index = UniqueIndex\<rparr>"
  unfolding world_after_10_def run_line10 by (simp_all add: fresh_world_def)

section \<open>Duplicate keys and other failures of the insert\<close>

text \<open>
  Claim C1. For a line that matches, with \<open>e\<close> its event. If the store reports no
  fault and rejects the insert because the height is present under the unique index,
  the collection is unchanged, no write error is logged, and the result is, apart from
  the collection \<^verbatim>\<open>committed_state\<close>, the result of the same call on a state whose
  collection accepts the insert: gap check and held state are exactly those of a
  successful insert. If the insert fails for another reason, the error is logged right
  after the earlier log entries, the event is not in the collection and no second insert
  is made (the collection is unchanged whatever the store would answer next), and the
  call returns the next state like any other: the held state is the event and the next
  line is processed from there.
\<close>

theorem duplicate_key_insert_is_success:
  assumes m: "FindStringSubmatch line \<noteq> []"
  shows
    "((db_faults w = [] \<or> \<not> hd (db_faults w)) \<and>
      height_index (committed_state w) = UniqueIndex \<and>
      Height (parse_entry (FindStringSubmatch line)) \<in> set (heights Height (committed_state w)) \<longrightarrow>
        committed_state (parseAndStore line w) = committed_state w
        \<and> (LogCommittedWriteError \<notin> set (logs w) \<longrightarrow>
             LogCommittedWriteError \<notin> set (logs (parseAndStore line w)))
        \<and> (\<forall>c'. \<not> (height_index c' = UniqueIndex
                     \<and> Height (parse_entry (FindStringSubmatch line)) \<in> set (heights Height c')) \<longrightarrow>
               parseAndStore line w =
                 (parseAndStore line (w\<lparr>committed_state := c'\<rparr>))
                   \<lparr>committed_state := committed_state w\<rparr>))
     \<and> (\<forall>fs. db_faults w = True # fs \<longrightarrow>
           committed_state (parseAndStore line w) = committed_state w
           \<and> (\<exists>ms. logs (parseAndStore line w) = logs w @ LogCommittedWriteError # ms)
           \<and> lastCommittedState (parseAndStore line w) = Some (parse_entry (FindStringSubmatch line)))"
proof -
  let ?e = "parse_entry (FindStringSubmatch line)"
  have dup: "committed_state (parseAndStore line w) = committed_state w
        \<and> (LogCommittedWriteError \<notin> set (logs w) \<longrightarrow>
             LogCommittedWriteError \<notin> set (logs (parseAndStore line w)))
        \<and> (\<forall>c'. \<not> (height_index c' = UniqueIndex \<and> Height ?e \<in> set (heights Height c')) \<longrightarrow>
               parseAndStore line w =
                 (parseAndStore line (w\<lparr>committed_state := c'\<rparr>))
                   \<lparr>committed_state := committed_state w\<rparr>)"
    if a: "db_faults w = [] \<or> \<not> hd (db_faults w)"
      and b: "height_index (committed_state w) = UniqueIndex"
      and c: "Height ?e \<in> set (heights Height (committed_state w))"
  proof -
    have s: "store_committed ?e w = w\<lparr>db_faults := tl (db_faults w)\<rparr>"
      using a b c by (rule store_committed_duplicate)
    obtain ms where ms: "logs (check_gap ?e (store_committed ?e w)) = logs (store_committed ?e w) @ ms"
      "LogCommittedWriteError \<notin> set ms"
      using check_gap_logs by blast
    have 1: "committed_state (parseAndStore line w) = committed_state w"
      by (simp add: parseAndStore_match [OF m] s)
    have 2: "LogCommittedWriteError \<notin> set (logs w) \<longrightarrow>
             LogCommittedWriteError \<notin> set (logs (parseAndStore line w))"
      using ms by (simp add: parseAndStore_match [OF m] s)
    have 3: "parseAndStore line w =
                 (parseAndStore line (w\<lparr>committed_state := c'\<rparr>))
                   \<lparr>committed_state := committed_state w\<rparr>"
      if d: "\<not> (height_index c' = UniqueIndex \<and> Height ?e \<in> set (heights Height c'))" for c'
    proof -
      have "store_committed ?e (w\<lparr>committed_state := c'\<rparr>) =
              (w\<lparr>db_faults := tl (db_faults w)\<rparr>)
                \<lparr>committed_state := c'\<lparr>docs := docs c' @ [(fresh_id (docs c'), ?e)]\<rparr>\<rparr>"
        using a d by (subst store_committed_success) auto
      then show ?thesis
        by (simp add: parseAndStore_match [OF m] s check_gap_indep)
    qed
    from 1 2 3 show ?thesis by blast
  qed
  have other: "committed_state (parseAndStore line w) = committed_state w
           \<and> (\<exists>ms. logs (parseAndStore line w) = logs w @ LogCommittedWriteError # ms)
           \<and> lastCommittedState (parseAndStore line w) = Some ?e"
    if f: "db_faults w = True # fs" for fs
  proof -
    obtain ms where ms: "logs (check_gap ?e (store_committed ?e w)) = logs (store_committed ?e w) @ ms"
      using check_gap_logs by blast
    show ?thesis
      using ms by (simp add: parseAndStore_match [OF m] store_committed_fault [OF f])
  qed
  from dup other show ?thesis by blast
qed

theorem duplicate_key_insert_is_success_witness:
  "FindStringSubmatch line10 \<noteq> [] \<and> db_faults world_after_10 = []
   \<and> height_index (committed_state world_after_10) = UniqueIndex
   \<and> Height event10 \<in> set (heights Height (committed_state world_after_10))
   \<and> committed_state (parseAndStore line10 world_after_10) = committed_state world_after_10
   \<and> LogCommittedWriteError \<notin> set (logs (parseAndStore line10 world_after_10))
   \<and> parseAndStore line10 world_after_10 =
       (parseAndStore line10 (world_after_10\<lparr>committed_state := committed_state fresh_world\<rparr>))
         \<lparr>committed_state := committed_state world_after_10\<rparr>
   \<and> FindStringSubmatch line11 \<noteq> [] \<and> db_faults faulty_world = [True]
   \<and> committed_state (parseAndStore line11 faulty_world) = committed_state faulty_world
   \<and> (\<exists>ms. logs (parseAndStore line11 faulty_world) =
             logs faulty_world @ LogCommittedWriteError # ms)
   \<and> lastCommittedState (parseAndStore line11 faulty_world) = Some event11"
proof -
  have m10: "FindStringSubmatch line10 \<noteq> []" by (simp add: find_line10)
  have m11: "FindStringSubmatch line11 \<noteq> []" by (simp add: find_line11)
  have w: "db_faults world_after_10 = []"
    "LogCommittedWriteError \<notin> set (logs world_after_10)"
    "height_index (committed_state world_after_10) = UniqueIndex"
    "Height event10 \<in> set (heights Height (committed_state world_after_10))"
    "\<not> (height_index (committed_state fresh_world) = UniqueIndex
        \<and> Height event10 \<in> set (heights Height (committed_state fresh_world)))"
    by (simp_all add: world_after_10_fields fresh_world_def heights_def)
  have f: "db_faults faulty_world = [True]" by (simp add: faulty_world_def)
  note t10 = duplicate_key_insert_is_success [OF m10, of world_after_10, unfolded entry_line10]
  note t11 = duplicate_key_insert_is_success [OF m11, of faulty_world, unfolded entry_line11]
  from t10 w have "committed_state (parseAndStore line10 world_after_10)
      = committed_state world_after_10
    \<and> LogCommittedWriteError \<notin> set (logs (parseAndStore line10 world_after_10))
    \<and> parseAndStore line10 world_after_10 =
       (parseAndStore line10 (world_after_10\<lparr>committed_state := committed_state fresh_world\<rparr>))
         \<lparr>committed_state := committed_state world_after_10\<rparr>"
    by blast
  moreover from t11 f have "committed_state (parseAndStore line11 faulty_world)
      = committed_state faulty_world
   \<and> (\<exists>ms. logs (parseAndStore line11 faulty_world) =
             logs faulty_world @ LogCommittedWriteError # ms)
   \<and> lastCommittedState (parseAndStore line11 faulty_world) = Some event11"
    by blast
  ultimately show ?thesis using m10 m11 w f by blast
qed

section \<open>The gap detector\<close>

lemma check_gap_none:
  "lastCommittedState w = None \<Longrightarrow> check_gap e w = w"
  by (simp add: check_gap_def)

lemma check_gap_below:
  "lastCommittedState w = Some prev \<Longrightarrow>
   Seconds (Sub (Timestamp e) (Timestamp prev)) < 5 \<Longrightarrow> check_gap e w = w"
  by (simp add: check_gap_def Let_def)

lemma check_gap_above:
  assumes "lastCommittedState w = Some prev"
    and "5 \<le> Seconds (Sub (Timestamp e) (Timestamp prev))"
  shows "block_time_gap (check_gap e w) =
     snd (InsertOne GapHeight (fst (pop_fault (db_faults w)))
            \<lparr>GapTimestamp = Timestamp e, GapHeight = Height e, GapTxs = Txs e,
             TimeDiff = Seconds (Sub (Timestamp e) (Timestamp prev)),
             PreviousHeight = Height prev\<rparr>
            (block_time_gap w))"
  using assms
  by (simp add: check_gap_def next_fault_def log_Printf_def Let_def split_def
      split: option.splits)

text \<open>Seconds and the saturating difference, in terms of the difference of the timestamps.\<close>

lemma truncated_parts:
  fixes d :: int
  shows "sgn d * (\<bar>d\<bar> div 1000000000) * 1000000000 + sgn d * (\<bar>d\<bar> mod 1000000000) = d"
proof (cases "d < 0")
  case True
  have e: "(- d) div 1000000000 * 1000000000 + (- d) mod 1000000000 = - d"
    by (rule div_mult_mod_eq)
  have s: "sgn d = - 1" "\<bar>d\<bar> = - d" using True by simp_all
  show ?thesis unfolding s using e by linarith
next
  case False
  have e: "d div 1000000000 * 1000000000 + d mod 1000000000 = d"
    by (rule div_mult_mod_eq)
  show ?thesis
  proof (cases "d = 0")
    case True
    then show ?thesis by simp
  next
    case F: False
    have s: "sgn d = 1" "\<bar>d\<bar> = d" using False F by simp_all
    show ?thesis unfolding s using e by linarith
  qed
qed

lemma Seconds_eq: "Seconds d = real_of_int d / 1000000000"
proof -
  have "real_of_int d =
      real_of_int (sgn d * (\<bar>d\<bar> div 1000000000) * 1000000000 + sgn d * (\<bar>d\<bar> mod 1000000000))"
    by (simp only: truncated_parts)
  also have "\<dots> = real_of_int (sgn d * (\<bar>d\<bar> div 1000000000)) * 1000000000
      + real_of_int (sgn d * (\<bar>d\<bar> mod 1000000000))"
    by (simp only: of_int_add of_int_mult of_int_numeral)
  finally show ?thesis by (simp add: Seconds_def Let_def field_simps)
qed

lemma Sub_cases:
  "Sub t u = (if maxInt64 < t - u then maxInt64 else if t - u < minInt64 then minInt64 else t - u)"
  by (simp add: Sub_def)

lemma gap_threshold: "(5 \<le> Seconds (Sub t u)) = (5000000000 \<le> t - u)"
  by (simp add: Seconds_eq Sub_def maxInt64_def minInt64_def)

lemma gap_time_diff:
  "Seconds (Sub t u) =
     (if maxInt64 < t - u then real_of_int maxInt64 / 1000000000
      else if t - u < minInt64 then real_of_int minInt64 / 1000000000
      else real_of_int (t - u) / 1000000000)"
  by (simp add: Seconds_eq Sub_def)

lemma gap_step:
  assumes m: "FindStringSubmatch line \<noteq> []"
  shows "lastCommittedState (parseAndStore line w) = Some (parse_entry (FindStringSubmatch line))
    \<and> (lastCommittedState w = None \<longrightarrow>
          block_time_gap (parseAndStore line w) = block_time_gap w)
    \<and> (\<forall>prev. lastCommittedState w = Some prev \<longrightarrow>
          (Seconds (Sub (Timestamp (parse_entry (FindStringSubmatch line))) (Timestamp prev)) < 5 \<longrightarrow>
             block_time_gap (parseAndStore line w) = block_time_gap w)
          \<and> (5 \<le> Seconds (Sub (Timestamp (parse_entry (FindStringSubmatch line))) (Timestamp prev)) \<longrightarrow>
               block_time_gap (parseAndStore line w) =
                 snd (InsertOne GapHeight (fst (pop_fault (tl (db_faults w))))
                        \<lparr>GapTimestamp = Timestamp (parse_entry (FindStringSubmatch line)),
                         GapHeight = Height (parse_entry (FindStringSubmatch line)),
                         GapTxs = Txs (parse_entry (FindStringSubmatch line)),
                         TimeDiff = Seconds (Sub (Timestamp (parse_entry (FindStringSubmatch line)))
                                                 (Timestamp prev)),
                         PreviousHeight = Height prev\<rparr>
                        (block_time_gap w)))
          \<and> (5 \<le> Seconds (Sub (Timestamp (parse_entry (FindStringSubmatch line))) (Timestamp prev))
               \<and> db_faults w = []
               \<and> Height (parse_entry (FindStringSubmatch line))
                    \<notin> set (heights GapHeight (block_time_gap w)) \<longrightarrow>
               docs (block_time_gap (parseAndStore line w)) =
                 docs (block_time_gap w) @
                   [(fresh_id (docs (block_time_gap w)),
                     \<lparr>GapTimestamp = Timestamp (parse_entry (FindStringSubmatch line)),
                      GapHeight = Height (parse_entry (FindStringSubmatch line)),
                      GapTxs = Txs (parse_entry (FindStringSubmatch line)),
                      TimeDiff = Seconds (Sub (Timestamp (parse_entry (FindStringSubmatch line)))
                                              (Timestamp prev)),
                      PreviousHeight = Height prev\<rparr>)]))"
proof -
  let ?e = "parse_entry (FindStringSubmatch line)"
  let ?w1 = "store_committed ?e w"
  have bg: "block_time_gap (parseAndStore line w) = block_time_gap (check_gap ?e ?w1)"
    by (simp add: parseAndStore_match [OF m])
  have 1: "lastCommittedState (parseAndStore line w) = Some ?e"
    by (simp add: parseAndStore_match [OF m])
  have 2: "block_time_gap (parseAndStore line w) = block_time_gap w"
    if "lastCommittedState w = None"
    using that by (simp add: bg check_gap_none)
  have 3: "block_time_gap (parseAndStore line w) = block_time_gap w"
    if "lastCommittedState w = Some prev" "Seconds (Sub (Timestamp ?e) (Timestamp prev)) < 5"
    for prev
    using that by (simp add: bg check_gap_below [where prev = prev])
  have 4: "block_time_gap (parseAndStore line w) =
      snd (InsertOne GapHeight (fst (pop_fault (tl (db_faults w))))
             \<lparr>GapTimestamp = Timestamp ?e, GapHeight = Height ?e, GapTxs = Txs ?e,
              TimeDiff = Seconds (Sub (Timestamp ?e) (Timestamp prev)),
              PreviousHeight = Height prev\<rparr>
             (block_time_gap w))"
    if "lastCommittedState w = Some prev" "5 \<le> Seconds (Sub (Timestamp ?e) (Timestamp prev))"
    for prev
    using that by (simp add: bg check_gap_above [where prev = prev])
  have 5: "docs (block_time_gap (parseAndStore line w)) =
      docs (block_time_gap w) @
        [(fresh_id (docs (block_time_gap w)),
          \<lparr>GapTimestamp = Timestamp ?e, GapHeight = Height ?e, GapTxs = Txs ?e,
           TimeDiff = Seconds (Sub (Timestamp ?e) (Timestamp prev)),
           PreviousHeight = Height prev\<rparr>)]"
    if "lastCommittedState w = Some prev" "5 \<le> Seconds (Sub (Timestamp ?e) (Timestamp prev))"
      "db_faults w = []" "Height ?e \<notin> set (heights GapHeight (block_time_gap w))"
    for prev
    using that by (simp add: 4 [OF that(1,2)] pop_fault_def InsertOne_def)
  from 1 2 3 4 5 show ?thesis by blast
qed

text \<open>
  Claim C2, as amended. For every line that matches: no gap check without a held event;
  with a held event \<open>prev\<close> the value \<open>delta\<close> decides: below 5 nothing is written to
  \<^verbatim>\<open>block_time_gap\<close>, from 5 on the gap record with exactly the five fields of the claim
  is inserted (and is the new last document when the store reports no fault and holds no
  gap of that height); in every case the held state becomes the new event. The two
  example lines, processed by a fresh process, leave the events of heights 10 and 11 and
  the gap record of height 11 after 10 with a difference of 6 seconds.
  The value \<open>delta\<close> is the difference of the two timestamps in seconds as long as that
  difference fits a signed 64-bit count of nanoseconds; a larger difference is replaced
  by the largest such count, a smaller one by the smallest. Either way \<open>delta\<close> is at
  least 5 exactly when the timestamps are at least five seconds apart.
\<close>

theorem gap_detector_state_machine:
  "(FindStringSubmatch line \<noteq> [] \<longrightarrow>
      lastCommittedState (parseAndStore line w) = Some (parse_entry (FindStringSubmatch line))
    \<and> (lastCommittedState w = None \<longrightarrow>
          block_time_gap (parseAndStore line w) = block_time_gap w)
    \<and> (\<forall>prev. lastCommittedState w = Some prev \<longrightarrow>
          (Seconds (Sub (Timestamp (parse_entry (FindStringSubmatch line))) (Timestamp prev)) < 5 \<longrightarrow>
             block_time_gap (parseAndStore line w) = block_time_gap w)
          \<and> (5 \<le> Seconds (Sub (Timestamp (parse_entry (FindStringSubmatch line))) (Timestamp prev)) \<longrightarrow>
               block_time_gap (parseAndStore line w) =
                 snd (InsertOne GapHeight (fst (pop_fault (tl (db_faults w))))
                        \<lparr>GapTimestamp = Timestamp (parse_entry (FindStringSubmatch line)),
                         GapHeight = Height (parse_entry (FindStringSubmatch line)),
                         GapTxs = Txs (parse_entry (FindStringSubmatch line)),
                         TimeDiff = Seconds (Sub (Timestamp (parse_entry (FindStringSubmatch line)))
                                                 (Timestamp prev)),
                         PreviousHeight = Height prev\<rparr>
                        (block_time_gap w)))
          \<and> (5 \<le> Seconds (Sub (Timestamp (parse_entry (FindStringSubmatch line))) (Timestamp prev))
               \<and> db_faults w = []
               \<and> Height (parse_entry (FindStringSubmatch line))
                    \<notin> set (heights GapHeight (block_time_gap w)) \<longrightarrow>
               docs (block_time_gap (parseAndStore line w)) =
                 docs (block_time_gap w) @
                   [(fresh_id (docs (block_time_gap w)),
                     \<lparr>GapTimestamp = Timestamp (parse_entry (FindStringSubmatch line)),
                      GapHeight = Height (parse_entry (FindStringSubmatch line)),
                      GapTxs = Txs (parse_entry (FindStringSubmatch line)),
                      TimeDiff = Seconds (Sub (Timestamp (parse_entry (FindStringSubmatch line)))
                                              (Timestamp prev)),
                      PreviousHeight = Height prev\<rparr>)])))
   \<and> map snd (docs (committed_state (process_lines [line10, line11] fresh_world)))
       = [event10, event11]
   \<and> map snd (docs (block_time_gap (process_lines [line10, line11] fresh_world))) = [gap_10_11]
   \<and> Height event10 = 10 \<and> Height event11 = 11 \<and> GapHeight gap_10_11 = 11
   \<and> PreviousHeight gap_10_11 = 10 \<and> TimeDiff gap_10_11 = 6
   \<and> Timestamp event11 - Timestamp event10 = 6 * 1000000000
   \<and> (\<forall>t u. (5 \<le> Seconds (Sub t u)) = (5000000000 \<le> t - u)
          \<and> Seconds (Sub t u) =
              (if maxInt64 < t - u then real_of_int maxInt64 / 1000000000
               else if t - u < minInt64 then real_of_int minInt64 / 1000000000
               else real_of_int (t - u) / 1000000000))"
proof -
  have rel: "\<forall>t u. (5 \<le> Seconds (Sub t u)) = (5000000000 \<le> t - u)
          \<and> Seconds (Sub t u) =
              (if maxInt64 < t - u then real_of_int maxInt64 / 1000000000
               else if t - u < minInt64 then real_of_int minInt64 / 1000000000
               else real_of_int (t - u) / 1000000000)"
    using gap_threshold gap_time_diff by blast
  have ex: "process_lines [line10, line11] fresh_world = parseAndStore line11 world_after_10"
    by (simp add: process_lines_def world_after_10_def)
  have "FindStringSubmatch line \<noteq> [] \<longrightarrow>
      lastCommittedState (parseAndStore line w) = Some (parse_entry (FindStringSubmatch line))
    \<and> (lastCommittedState w = None \<longrightarrow>
          block_time_gap (parseAndStore line w) = block_time_gap w)
    \<and> (\<forall>prev. lastCommittedState w = Some prev \<longrightarrow>
          (Seconds (Sub (Timestamp (parse_entry (FindStringSubmatch line))) (Timestamp prev)) < 5 \<longrightarrow>
             block_time_gap (parseAndStore line w) = block_time_gap w)
          \<and> (5 \<le> Seconds (Sub (Timestamp (parse_entry (FindStringSubmatch line))) (Timestamp prev)) \<longrightarrow>
               block_time_gap (parseAndStore line w) =
                 snd (InsertOne GapHeight (fst (pop_fault (tl (db_faults w))))
                        \<lparr>GapTimestamp = Timestamp (parse_entry (FindStringSubmatch line)),
                         GapHeight = Height (parse_entry (FindStringSubmatch line)),
                         GapTxs = Txs (parse_entry (FindStringSubmatch line)),
                         TimeDiff = Seconds (Sub (Timestamp (parse_entry (FindStringSubmatch line)))
                                                 (Timestamp prev)),
                         PreviousHeight = Height prev\<rparr>
                        (block_time_gap w)))
          \<and> (5 \<le> Seconds (Sub (Timestamp (parse_entry (FindStringSubmatch line))) (Timestamp prev))
               \<and> db_faults w = []
               \<and> Height (parse_entry (FindStringSubmatch line))
                    \<notin> set (heights GapHeight (block_time_gap w)) \<longrightarrow>
               docs (block_time_gap (parseAndStore line w)) =
                 docs (block_time_gap w) @
                   [(fresh_id (docs (block_time_gap w)),
                     \<lparr>GapTimestamp = Timestamp (parse_entry (FindStringSubmatch line)),
                      GapHeight = Height (parse_entry (FindStringSubmatch line)),
                      GapTxs = Txs (parse_entry (FindStringSubmatch line)),
                      TimeDiff = Seconds (Sub (Timestamp (parse_entry (FindStringSubmatch line)))
                                              (Timestamp prev)),
                      PreviousHeight = Height prev\<rparr>)]))"
    using gap_step by blast
  moreover have "map snd (docs (committed_state (process_lines [line10, line11] fresh_world)))
       = [event10, event11]"
    "map snd (docs (block_time_gap (process_lines [line10, line11] fresh_world))) = [gap_10_11]"
    by (simp_all add: ex run_line11)
  moreover have "Height event10 = 10 \<and> Height event11 = 11 \<and> GapHeight gap_10_11 = 11
   \<and> PreviousHeight gap_10_11 = 10 \<and> TimeDiff gap_10_11 = 6
   \<and> Timestamp event11 - Timestamp event10 = 6 * 1000000000"
    by (simp add: event10_def event11_def gap_10_11_def)
  ultimately show ?thesis using rel by blast
qed

theorem gap_detector_state_machine_witness:
  "FindStringSubmatch line11 \<noteq> [] \<and> lastCommittedState world_after_10 = Some event10
   \<and> 5 \<le> Seconds (Sub (Timestamp event11) (Timestamp event10))
   \<and> db_faults world_after_10 = []
   \<and> Height event11 \<notin> set (heights GapHeight (block_time_gap world_after_10))
   \<and> lastCommittedState (parseAndStore line11 world_after_10) = Some event11
   \<and> docs (block_time_gap (parseAndStore line11 world_after_10)) = [(0, gap_10_11)]
   \<and> FindStringSubmatch line10 \<noteq> [] \<and> lastCommittedState fresh_world = None
   \<and> block_time_gap (parseAndStore line10 fresh_world) = block_time_gap fresh_world
   \<and> 5000000000 \<le> Timestamp event11 - Timestamp event10
   \<and> \<not> maxInt64 < Timestamp event11 - Timestamp event10
   \<and> \<not> Timestamp event11 - Timestamp event10 < minInt64
   \<and> Seconds (Sub (Timestamp event11) (Timestamp event10))
       = real_of_int (Timestamp event11 - Timestamp event10) / 1000000000"
proof -
  have m10: "FindStringSubmatch line10 \<noteq> []" by (simp add: find_line10)
  have m11: "FindStringSubmatch line11 \<noteq> []" by (simp add: find_line11)
  have w: "lastCommittedState world_after_10 = Some event10" "db_faults world_after_10 = []"
    "Height event11 \<notin> set (heights GapHeight (block_time_gap world_after_10))"
    "lastCommittedState fresh_world = None"
    by (simp_all add: world_after_10_fields fresh_world_def heights_def)
  have s: "Seconds (Sub (Timestamp event11) (Timestamp event10)) = 6"
    by (simp add: event10_def event11_def gap_seconds)
  then have s5: "5 \<le> Seconds (Sub (Timestamp event11) (Timestamp event10))"
    by simp
  note t11 = gap_detector_state_machine [of line11 world_after_10, unfolded entry_line11]
  note t10 = gap_detector_state_machine [of line10 fresh_world, unfolded entry_line10]
  from t11 m11 w s5 have d:
    "lastCommittedState (parseAndStore line11 world_after_10) = Some event11
     \<and> docs (block_time_gap (parseAndStore line11 world_after_10)) =
        docs (block_time_gap world_after_10) @
          [(fresh_id (docs (block_time_gap world_after_10)),
            \<lparr>GapTimestamp = Timestamp event11, GapHeight = Height event11,
             GapTxs = Txs event11,
             TimeDiff = Seconds (Sub (Timestamp event11) (Timestamp event10)),
             PreviousHeight = Height event10\<rparr>)]"
    by blast
  have g: "docs (block_time_gap world_after_10) @
          [(fresh_id (docs (block_time_gap world_after_10)),
            \<lparr>GapTimestamp = Timestamp event11, GapHeight = Height event11,
             GapTxs = Txs event11,
             TimeDiff = Seconds (Sub (Timestamp event11) (Timestamp event10)),
             PreviousHeight = Height event10\<rparr>)] = [(0, gap_10_11)]"
    unfolding s by (simp add: world_after_10_fields fresh_id_def event10_def event11_def
        gap_10_11_def)
  from t10 m10 w have e:
    "block_time_gap (parseAndStore line10 fresh_world) = block_time_gap fresh_world"
    by blast
  have r: "5000000000 \<le> Timestamp event11 - Timestamp event10"
    "\<not> maxInt64 < Timestamp event11 - Timestamp event10"
    "\<not> Timestamp event11 - Timestamp event10 < minInt64"
    by (simp_all add: event10_def event11_def maxInt64_def minInt64_def)
  from t11 have "Seconds (Sub (Timestamp event11) (Timestamp event10)) =
      (if maxInt64 < Timestamp event11 - Timestamp event10
       then real_of_int maxInt64 / 1000000000
       else if Timestamp event11 - Timestamp event10 < minInt64
       then real_of_int minInt64 / 1000000000
       else real_of_int (Timestamp event11 - Timestamp event10) / 1000000000)"
    by blast
  then have x: "Seconds (Sub (Timestamp event11) (Timestamp event10))
       = real_of_int (Timestamp event11 - Timestamp event10) / 1000000000"
    using r by simp
  from d g have dd: "lastCommittedState (parseAndStore line11 world_after_10) = Some event11
     \<and> docs (block_time_gap (parseAndStore line11 world_after_10)) = [(0, gap_10_11)]"
    by simp
  from dd e m10 m11 w s5 r x show ?thesis by blast
qed

section \<open>The fields of the parsed event\<close>

lemma digit_val_range: "isDigit c \<Longrightarrow> 0 \<le> digit_val c \<and> digit_val c \<le> 9"
  by (auto simp add: isDigit_def digit_val_def)

lemma ParseUint_loop_syntax: "ParseUint_loop n s = (v, Some ErrSyntax) \<Longrightarrow> v = 0"
  by (induction n s rule: ParseUint_loop.induct) (auto simp add: Let_def split: if_splits)

lemma ParseUint_loop_range: "ParseUint_loop n s = (v, Some ErrRange) \<Longrightarrow> v = maxUint64"
  by (induction n s rule: ParseUint_loop.induct) (auto simp add: Let_def split: if_splits)

lemma foldl_digits_mono:
  "0 \<le> n \<Longrightarrow> list_all isDigit s \<Longrightarrow> n \<le> foldl (\<lambda>a c. a * 10 + digit_val c) n s"
proof (induction s arbitrary: n)
  case Nil
  then show ?case by simp
next
  case (Cons c s)
  have d: "0 \<le> digit_val c" using Cons.prems digit_val_range by simp
  have "n \<le> n * 10 + digit_val c" using Cons.prems d by simp
  also have "\<dots> \<le> foldl (\<lambda>a c. a * 10 + digit_val c) (n * 10 + digit_val c) s"
    using Cons.prems d by (intro Cons.IH) simp_all
  finally show ?case by simp
qed

lemma wrap_once:
  fixes x :: int
  assumes "18446744073709551616 \<le> x" "x < 36893488147419103232"
  shows "x mod 18446744073709551616 = x - 18446744073709551616"
proof -
  have "(x - 18446744073709551616) mod 18446744073709551616 = x - 18446744073709551616"
    using assms by (intro mod_pos_pos_trivial) simp_all
  then show ?thesis by (simp add: minus_mod_self2)
qed

lemma ParseUint_loop_value:
  "0 \<le> n \<Longrightarrow> n \<le> maxUint64 \<Longrightarrow> list_all isDigit s \<Longrightarrow>
   ParseUint_loop n s =
     (if foldl (\<lambda>a c. a * 10 + digit_val c) n s \<le> maxUint64
      then (foldl (\<lambda>a c. a * 10 + digit_val c) n s, None)
      else (maxUint64, Some ErrRange))"
proof (induction s arbitrary: n)
  case Nil
  then show ?case by simp
next
  case (Cons c s)
  let ?f = "\<lambda>a c. a * 10 + digit_val c"
  have d: "0 \<le> digit_val c" "digit_val c \<le> 9" "isDigit c" "list_all isDigit s"
    using Cons.prems digit_val_range by simp_all
  have n1: "0 \<le> n * 10 + digit_val c" using Cons.prems d by simp
  have mono: "n * 10 + digit_val c \<le> foldl ?f (n * 10 + digit_val c) s"
    using n1 d by (intro foldl_digits_mono) simp_all
  show ?case
  proof (cases "n \<ge> maxUint64 div 10 + 1")
    case True
    then have "foldl ?f (n * 10 + digit_val c) s > maxUint64"
      using mono d by (simp add: maxUint64_def)
    then show ?thesis using True d by simp
  next
    case False
    then have m: "(n * 10) mod 2 ^ 64 = n * 10"
      using Cons.prems by (simp add: maxUint64_def)
    show ?thesis
    proof (cases "n * 10 + digit_val c > maxUint64")
      case True
      have "(n * 10 + digit_val c) mod 18446744073709551616
          = n * 10 + digit_val c - 18446744073709551616"
        using True False d by (intro wrap_once) (simp_all add: maxUint64_def)
      then have w: "(n * 10 + digit_val c) mod 2 ^ 64 < n * 10"
        using d by simp
      have "foldl ?f (n * 10 + digit_val c) s > maxUint64" using True mono by simp
      then show ?thesis using False d m w by (simp add: Let_def)
    next
      case F2: False
      then have w: "(n * 10 + digit_val c) mod 2 ^ 64 = n * 10 + digit_val c"
        using n1 by (simp add: maxUint64_def)
      have le: "n * 10 + digit_val c \<le> maxUint64" using F2 by simp
      show ?thesis using False F2 d m w Cons.IH [OF n1 le d(4)] by (simp add: Let_def)
    qed
  qed
qed

lemma ParseUint_decimal:
  assumes "ds \<noteq> []" "list_all isDigit ds"
  shows "ParseUint ds =
     (if decimal_value ds \<le> maxUint64 then (decimal_value ds, None)
      else (maxUint64, Some ErrRange))"
  using assms ParseUint_loop_value [of 0 ds]
  by (simp add: ParseUint_def decimal_value_def maxUint64_def)

lemma decimal_value_nonneg: "list_all isDigit ds \<Longrightarrow> 0 \<le> decimal_value ds"
  using foldl_digits_mono [of 0 ds] by (simp add: decimal_value_def)





lemma ParseInt_plus:
  assumes "ds \<noteq> []" "list_all isDigit ds"
  shows "ParseInt (CHR ''+'' # ds) =
     (if decimal_value ds \<le> maxInt64 then (decimal_value ds, None)
      else (maxInt64, Some ErrRange))"
  using ParseUint_decimal [OF assms]
  by (auto simp add: ParseInt_def Let_def maxInt64_def maxUint64_def)




lemma find_line_bad:
  "FindStringSubmatch line_bad = [line_bad, ''yesterday'', ''x'', ''1x'', ''-5'', '' abc '']"
  by (simp add: line_bad_def regex_defs)


lemma entry_line_bad:
  "parse_entry (FindStringSubmatch line_bad) =
     \<lparr>Timestamp = 0, Module = ''x'', Height = 0, Txs = - 5, AppHash = ''abc''\<rparr>"
  by (simp add: find_line_bad parse_defs)









lemma Atoi_eq: "Atoi s = ParseInt s"
  by (simp add: Atoi_def)







section \<open>Matching inside a line\<close>

lemma regex_starts: "committedStateRegex s \<noteq> None \<Longrightarrow> prefix ''I['' s"
  by (auto simp add: committedStateRegex_def lit_def split: if_splits)

lemma find_here:
  "committedStateRegex s \<noteq> None \<Longrightarrow> FindStringSubmatch s \<noteq> []"
  by (cases s) (auto split: option.splits)

lemma find_append_nonempty:
  "committedStateRegex body \<noteq> None \<Longrightarrow> FindStringSubmatch (pre @ body) \<noteq> []"
proof (induction pre)
  case Nil
  then show ?case by (simp add: find_here)
next
  case (Cons c cs)
  then show ?case by (auto split: option.splits)
qed

lemma no_match_in_prefix:
  assumes "\<not> contains_opening (c # cs)" "prefix ''I['' body"
  shows "committedStateRegex (c # cs @ body) = None"
proof (rule ccontr)
  assume "committedStateRegex (c # cs @ body) \<noteq> None"
  then have p: "prefix ''I['' (c # cs @ body)" by (rule regex_starts)
  show False
  proof (cases cs)
    case Nil
    then show ?thesis using p assms(2) by (auto simp add: prefix_def)
  next
    case (Cons d ds)
    then show ?thesis using p assms(1) by (auto simp add: prefix_def)
  qed
qed

lemma contains_opening_tl: "\<not> contains_opening (c # cs) \<Longrightarrow> \<not> contains_opening cs"
  by (cases cs) auto

lemma find_skips_prefix:
  assumes "committedStateRegex body \<noteq> None"
  shows "\<not> contains_opening pre \<Longrightarrow> FindStringSubmatch (pre @ body) = FindStringSubmatch body"
proof (induction pre)
  case Nil
  then show ?case by simp
next
  case (Cons c cs)
  have "committedStateRegex (c # cs @ body) = None"
    using Cons.prems regex_starts [OF assms] by (rule no_match_in_prefix)
  moreover have "FindStringSubmatch (cs @ body) = FindStringSubmatch body"
    using Cons contains_opening_tl by blast
  ultimately show ?case by simp
qed

text \<open>
  Claim C9, as amended. The match is not anchored: a line that holds a text matched by
  the pattern after any prefix is turned into an event. The event is the one of the
  text alone whenever the prefix does not contain the opening \<^verbatim>\<open>I[\<close> of the pattern;
  otherwise the leftmost opening starts the match, and the event is read from there.
\<close>

theorem match_is_not_anchored:
  assumes "committedStateRegex body \<noteq> None"
  shows "FindStringSubmatch (pre @ body) \<noteq> []
    \<and> lastCommittedState (parseAndStore (pre @ body) w)
        = Some (parse_entry (FindStringSubmatch (pre @ body)))
    \<and> (\<not> contains_opening pre \<longrightarrow>
          FindStringSubmatch (pre @ body) = FindStringSubmatch body
          \<and> parseAndStore (pre @ body) w = parseAndStore body w)"
proof -
  have 1: "FindStringSubmatch (pre @ body) \<noteq> []"
    using assms by (rule find_append_nonempty)
  have 2: "lastCommittedState (parseAndStore (pre @ body) w)
        = Some (parse_entry (FindStringSubmatch (pre @ body)))"
    by (simp add: parseAndStore_match [OF 1])
  have 3: "FindStringSubmatch (pre @ body) = FindStringSubmatch body
          \<and> parseAndStore (pre @ body) w = parseAndStore body w"
    if "\<not> contains_opening pre"
    using find_skips_prefix [OF assms that] by (simp add: parseAndStore_def)
  from 1 2 3 show ?thesis by blast
qed

lemma regex_line10: "committedStateRegex line10 \<noteq> None"
  by (simp add: line10_def regex_defs)

theorem match_is_not_anchored_witness:
  "committedStateRegex line10 \<noteq> None \<and> \<not> contains_opening ''2024/01/01 node-1 | ''
   \<and> FindStringSubmatch (''2024/01/01 node-1 | '' @ line10) = FindStringSubmatch line10
   \<and> parseAndStore (''2024/01/01 node-1 | '' @ line10) fresh_world = world_after_10
   \<and> lastCommittedState (parseAndStore (''2024/01/01 node-1 | '' @ line10) fresh_world)
       = Some event10"
proof -
  have c: "\<not> contains_opening ''2024/01/01 node-1 | ''" by simp
  note t = match_is_not_anchored [OF regex_line10, of "''2024/01/01 node-1 | ''" fresh_world]
  from t c have "FindStringSubmatch (''2024/01/01 node-1 | '' @ line10) = FindStringSubmatch line10
     \<and> parseAndStore (''2024/01/01 node-1 | '' @ line10) fresh_world
        = parseAndStore line10 fresh_world"
    by blast
  moreover from t have "lastCommittedState (parseAndStore (''2024/01/01 node-1 | '' @ line10) fresh_world)
       = Some (parse_entry (FindStringSubmatch (''2024/01/01 node-1 | '' @ line10)))"
    by blast
  ultimately show ?thesis
    using regex_line10 c by (simp add: world_after_10_def entry_line10)
qed

text \<open>
  The claim as it was stated fails for a prefix that contains the opening of the
  pattern: the line made of \<^verbatim>\<open>I[\<close> and the first example line holds that example line,
  but the match starts at the first \<^verbatim>\<open>I[\<close>, the first group is not a timestamp, and
  the event is not the one of the example line.
\<close>

theorem embedded_match_counterexample:
  "committedStateRegex line10 \<noteq> None
   \<and> lastCommittedState (parseAndStore line10 fresh_world) = Some event10
   \<and> lastCommittedState (parseAndStore (''I['' @ line10) fresh_world)
       = Some (event10\<lparr>Timestamp := 0\<rparr>)
   \<and> event10\<lparr>Timestamp := 0\<rparr> \<noteq> event10"
proof -
  have f: "FindStringSubmatch (''I['' @ line10) =
     [''I['' @ line10, ''I[2024-01-01|00:00:05.000'', ''x'', ''10'', ''3'', ''abc'']"
    by (simp add: line10_def regex_defs)
  then have m: "FindStringSubmatch (''I['' @ line10) \<noteq> []" by simp
  have e: "parse_entry (FindStringSubmatch (''I['' @ line10)) = event10\<lparr>Timestamp := 0\<rparr>"
    unfolding f by (simp add: event10_def parse_defs)
  have "lastCommittedState (parseAndStore (''I['' @ line10) fresh_world)
       = Some (event10\<lparr>Timestamp := 0\<rparr>)"
    unfolding parseAndStore_match [OF m] e by simp
  moreover have "lastCommittedState (parseAndStore line10 fresh_world) = Some event10"
    by (simp add: run_line10)
  moreover have "event10\<lparr>Timestamp := 0\<rparr> \<noteq> event10"
    by (simp add: event10_def)
  ultimately show ?thesis using regex_line10 by simp
qed

section \<open>Files that cannot be opened\<close>

text \<open>\<^verbatim>\<open>parseAndStore\<close> does not touch the file system.\<close>

lemma store_committed_fs [simp]:
  "files (store_committed e w) = files w"
  "dirs (store_committed e w) = dirs w"
  "inodes (store_committed e w) = inodes w"
  "open_files (store_committed e w) = open_files w"
  "next_fd (store_committed e w) = next_fd w"
  by (simp_all add: step_defs split_def split: option.splits list.splits)

lemma check_gap_fs [simp]:
  "files (check_gap e w) = files w"
  "dirs (check_gap e w) = dirs w"
  "inodes (check_gap e w) = inodes w"
  "open_files (check_gap e w) = open_files w"
  "next_fd (check_gap e w) = next_fd w"
  by (simp_all add: step_defs split_def split: option.splits list.splits)

lemma parseAndStore_fs [simp]:
  "files (parseAndStore line w) = files w"
  "dirs (parseAndStore line w) = dirs w"
  "inodes (parseAndStore line w) = inodes w"
  "open_files (parseAndStore line w) = open_files w"
  "next_fd (parseAndStore line w) = next_fd w"
  by (simp_all add: parseAndStore_def Let_def)

lemma process_lines_fs [simp]:
  "files (process_lines toks w) = files w"
  "dirs (process_lines toks w) = dirs w"
  "inodes (process_lines toks w) = inodes w"
  "open_files (process_lines toks w) = open_files w"
  "next_fd (process_lines toks w) = next_fd w"
  by (induction toks arbitrary: w) (simp_all add: process_lines_def)

text \<open>
  Claim C8, as amended. A path that does not exist at open time is skipped without any
  diagnostic: the state, log included, is unchanged. A file that exists but cannot be
  opened is skipped with one log entry and no other change. In both cases the call
  returns and the caller goes on with the next file.
\<close>

theorem unopenable_file_is_skipped:
  "(files w filePath = None \<longrightarrow> processSingleFile filePath w = w)
   \<and> (\<forall>ino. files w filePath = Some (Denied ino) \<longrightarrow>
         processSingleFile filePath w = log_Printf (LogOpenError filePath) w
         \<and> logs (processSingleFile filePath w) = logs w @ [LogOpenError filePath])"
  by (simp add: processSingleFile_def os_Open_def log_Printf_def)


section \<open>The line scanner\<close>

lemma takeWhile_line:
  "newline \<notin> set l \<Longrightarrow> takeWhile (\<lambda>c. c \<noteq> newline) (l @ newline # r) = l"
  by (induction l) auto

lemma dropWhile_line:
  "newline \<notin> set l \<Longrightarrow> dropWhile (\<lambda>c. c \<noteq> newline) (l @ newline # r) = newline # r"
  by (induction l) auto

lemma scan_lines_Nil: "scan_lines [] = ([], False, 0)"
  by (simp add: scan_lines.simps)

lemma scan_lines_tail:
  assumes "newline \<notin> set t" "t \<noteq> []" "length t < MaxScanTokenSize"
  shows "scan_lines t = ([dropCR t], False, length t)"
proof -
  have tw: "takeWhile (\<lambda>c. c \<noteq> newline) t = t" "dropWhile (\<lambda>c. c \<noteq> newline) t = []"
    using assms(1) by (auto simp add: takeWhile_eq_all_conv)
  show ?thesis
    using assms(2,3) by (subst scan_lines.simps) (simp add: Let_def tw)
qed

lemma scan_lines_line:
  assumes "newline \<notin> set l" "length l < MaxScanTokenSize"
  shows "scan_lines (l @ newline # r) =
     (case scan_lines r of (toks, err, n) \<Rightarrow> (dropCR l # toks, err, length l + 1 + n))"
  using assms
  by (subst scan_lines.simps) (simp add: Let_def takeWhile_line dropWhile_line)


text \<open>
  A text made of complete lines \<open>ls\<close> and an unterminated rest \<open>t\<close>, none of them
  reaching the token limit: every line is delivered, the rest too when it is not empty,
  and all bytes are read.
\<close>

lemma scan_lines_complete:
  assumes "\<forall>l \<in> set ls. newline \<notin> set l \<and> length l < MaxScanTokenSize"
    and "newline \<notin> set t" "length t < MaxScanTokenSize"
  shows "scan_lines (concat (map (\<lambda>l. l @ [newline]) ls) @ t) =
     (map dropCR ls @ (if t = [] then [] else [dropCR t]), False,
      length (concat (map (\<lambda>l. l @ [newline]) ls) @ t))"
  using assms(1)
proof (induction ls)
  case Nil
  then show ?case
    using assms(2,3) by (cases "t = []") (simp_all add: scan_lines_Nil scan_lines_tail)
next
  case (Cons l ls)
  then have l: "newline \<notin> set l" "length l < MaxScanTokenSize" by simp_all
  have "scan_lines (concat (map (\<lambda>l. l @ [newline]) (l # ls)) @ t) =
      scan_lines (l @ newline # (concat (map (\<lambda>l. l @ [newline]) ls) @ t))"
    by simp
  also have "\<dots> = (dropCR l # (map dropCR ls @ (if t = [] then [] else [dropCR t])), False,
      length l + 1 + length (concat (map (\<lambda>l. l @ [newline]) ls) @ t))"
    using Cons by (simp add: scan_lines_line [OF l])
  finally show ?case by simp
qed

section \<open>The tailer\<close>

lemma store_committed_open_files:
  "store_committed e (w\<lparr>open_files := X\<rparr>) = (store_committed e w)\<lparr>open_files := X\<rparr>"
  by (simp add: step_defs split_def split: option.splits list.splits)

lemma check_gap_open_files:
  "check_gap e (w\<lparr>open_files := X\<rparr>) = (check_gap e w)\<lparr>open_files := X\<rparr>"
  by (simp add: step_defs split_def split: option.splits list.splits)

lemma store_committed_next_fd:
  "store_committed e (w\<lparr>next_fd := X\<rparr>) = (store_committed e w)\<lparr>next_fd := X\<rparr>"
  by (simp add: step_defs split_def split: option.splits list.splits)

lemma check_gap_next_fd:
  "check_gap e (w\<lparr>next_fd := X\<rparr>) = (check_gap e w)\<lparr>next_fd := X\<rparr>"
  by (simp add: step_defs split_def split: option.splits list.splits)

lemma parseAndStore_open_files:
  "parseAndStore line (w\<lparr>open_files := X\<rparr>) = (parseAndStore line w)\<lparr>open_files := X\<rparr>"
  by (simp add: parseAndStore_def Let_def store_committed_open_files check_gap_open_files)

lemma parseAndStore_next_fd:
  "parseAndStore line (w\<lparr>next_fd := X\<rparr>) = (parseAndStore line w)\<lparr>next_fd := X\<rparr>"
  by (simp add: parseAndStore_def Let_def store_committed_next_fd check_gap_next_fd)

lemma process_lines_open_files:
  "process_lines toks (w\<lparr>open_files := X\<rparr>) = (process_lines toks w)\<lparr>open_files := X\<rparr>"
  by (induction toks arbitrary: w) (simp_all add: process_lines_def parseAndStore_open_files)

lemma process_lines_next_fd:
  "process_lines toks (w\<lparr>next_fd := X\<rparr>) = (process_lines toks w)\<lparr>next_fd := X\<rparr>"
  by (induction toks arbitrary: w) (simp_all add: process_lines_def parseAndStore_next_fd)

lemma openAndSeek_regular:
  "files w filePath = Some (Regular ino) \<Longrightarrow>
   openAndSeek filePath (t, w) =
     (t\<lparr>file_handle := Some (next_fd w)\<rparr>,
      w\<lparr>open_files := (open_files w)(next_fd w \<mapsto> (ino, currentPos t)),
        next_fd := Suc (next_fd w)\<rparr>)"
  by (simp add: openAndSeek_def os_Open_def os_Seek_def)

lemma openAndSeek_fails:
  "files w filePath = None \<or> (\<exists>ino. files w filePath = Some (Denied ino)) \<Longrightarrow>
   openAndSeek filePath (t, w) =
     (t\<lparr>file_handle := None\<rparr>, log_Printf (LogWatchOpenError filePath) w)"
  by (auto simp add: openAndSeek_def os_Open_def)

lemma on_write_open:
  assumes "file_handle t = Some fd" "open_files w fd = Some (ino, pos)"
    and "scan_lines (drop pos (inodes w ino)) = (toks, err, n)"
  shows "on_write filePath (t, w) =
     (t\<lparr>currentPos := pos + n\<rparr>,
      (if err then log_Printf LogWatchReadError (process_lines toks w) else process_lines toks w)
        \<lparr>open_files := (open_files w)(fd \<mapsto> (ino, pos + n))\<rparr>)"
  using assms
  by (simp add: on_write_def scan_fd_def os_Tell_def log_Printf_def process_lines_open_files)









section \<open>Notifications\<close>



lemma handle_event_write:
  "Name ev = filePath \<Longrightarrow> Op ev AND Write = Write \<Longrightarrow>
   handle_event filePath ev s =
     on_write filePath (if Op ev AND Create = Create then on_create filePath s else s)"
  by (simp add: handle_event_def Let_def)


text \<open>
  Claim C10. A notification with the write bit is handled by the write branch, after the
  create branch if that bit is set too. When the tailer holds no handle, the write
  branch opens the watched file first. If that fails, nothing is read: the tailer is
  unchanged (no handle, same offset) and the world only gains the log entry. If it
  succeeds, the new handle is set to the saved offset and the scanner reads the content
  from that offset on, so nothing before the offset is read or stored again; the offset
  then advances by the number of bytes read.
\<close>

theorem write_without_handle_reopens_at_offset:
  "(Name ev = filePath \<and> Op ev AND Write = Write \<longrightarrow>
      handle_event filePath ev (t, w) =
        on_write filePath
          (if Op ev AND Create = Create then on_create filePath (t, w) else (t, w)))
   \<and> (file_handle t = None \<longrightarrow>
        (files w filePath = None \<or> (\<exists>ino. files w filePath = Some (Denied ino)) \<longrightarrow>
           on_write filePath (t, w) = (t, log_Printf (LogWatchOpenError filePath) w))
        \<and> (\<forall>ino toks err n.
              files w filePath = Some (Regular ino)
              \<and> scan_lines (drop (currentPos t) (inodes w ino)) = (toks, err, n) \<longrightarrow>
              on_write filePath (t, w) =
                (\<lparr>file_handle = Some (next_fd w), currentPos = currentPos t + n\<rparr>,
                 (if err then log_Printf LogWatchReadError (process_lines toks w)
                  else process_lines toks w)
                   \<lparr>open_files := (open_files w)(next_fd w \<mapsto> (ino, currentPos t + n)),
                    next_fd := Suc (next_fd w)\<rparr>)))"
proof -
  have 1: "handle_event filePath ev (t, w) =
        on_write filePath
          (if Op ev AND Create = Create then on_create filePath (t, w) else (t, w))"
    if "Name ev = filePath \<and> Op ev AND Write = Write"
    using that by (simp add: handle_event_write)
  have 2: "on_write filePath (t, w) = (t, log_Printf (LogWatchOpenError filePath) w)"
    if "file_handle t = None"
      "files w filePath = None \<or> (\<exists>ino. files w filePath = Some (Denied ino))"
    using that by (simp add: on_write_def openAndSeek_fails)
  have 3: "on_write filePath (t, w) =
                (\<lparr>file_handle = Some (next_fd w), currentPos = currentPos t + n\<rparr>,
                 (if err then log_Printf LogWatchReadError (process_lines toks w)
                  else process_lines toks w)
                   \<lparr>open_files := (open_files w)(next_fd w \<mapsto> (ino, currentPos t + n)),
                    next_fd := Suc (next_fd w)\<rparr>)"
    if n: "file_handle t = None" and f: "files w filePath = Some (Regular ino)"
      and sc: "scan_lines (drop (currentPos t) (inodes w ino)) = (toks, err, n)"
    for ino toks err n
  proof -
    let ?t1 = "t\<lparr>file_handle := Some (next_fd w)\<rparr>"
    let ?w1 = "w\<lparr>open_files := (open_files w)(next_fd w \<mapsto> (ino, currentPos t)),
                 next_fd := Suc (next_fd w)\<rparr>"
    have "on_write filePath (t, w) = on_write filePath (?t1, ?w1)"
      using n by (simp add: on_write_def openAndSeek_regular [OF f])
    also have "\<dots> = (?t1\<lparr>currentPos := currentPos t + n\<rparr>,
       (if err then log_Printf LogWatchReadError (process_lines toks ?w1)
        else process_lines toks ?w1)
         \<lparr>open_files := (open_files ?w1)(next_fd w \<mapsto> (ino, currentPos t + n))\<rparr>)"
      using sc by (intro on_write_open) simp_all
    finally show ?thesis
      by (simp add: process_lines_open_files process_lines_next_fd log_Printf_def)
  qed
  from 1 2 3 show ?thesis by blast
qed

section \<open>The tailer on the example file\<close>

lemma example_lines:
  "newline \<notin> set line10" "newline \<notin> set line11"
  "length line10 < MaxScanTokenSize" "length line11 < MaxScanTokenSize"
  "dropCR line10 = line10" "dropCR line11 = line11"
  by (simp_all add: line10_def line11_def newline_def MaxScanTokenSize_def dropCR_def)

lemma scan_line11:
  "scan_lines (line11 @ [newline]) = ([line11], False, length (line11 @ [newline]))"
  using scan_lines_complete [of "[line11]" "[]"] example_lines
  by (simp add: MaxScanTokenSize_def)

lemma run_line11_from:
  assumes "lastCommittedState w = Some event10" "db_faults w = []"
    and "committed_state w = \<lparr>docs = [(0, event10)], height_index = UniqueIndex\<rparr>"
    and "block_time_gap w = \<lparr>docs = [], height_index = UniqueIndex\<rparr>"
  shows "parseAndStore line11 w =
     w\<lparr>lastCommittedState := Some event11,
       committed_state := \<lparr>docs = [(0, event10), (1, event11)], height_index = UniqueIndex\<rparr>,
       block_time_gap := \<lparr>docs = [(0, gap_10_11)], height_index = UniqueIndex\<rparr>,
       logs := logs w @ [LogGapDetected 6 10 11 1]\<rparr>"
proof -
  have m: "FindStringSubmatch line11 \<noteq> []" by (simp add: find_line11)
  have h: "Height event10 = 10" "Height event11 = 11" "Txs event11 = 1"
    "Timestamp event11 = 63839664011000000000" "Timestamp event10 = 63839664005000000000"
    by (simp_all add: event10_def event11_def)
  show ?thesis
    unfolding parseAndStore_match [OF m] entry_line11
    using assms
    by (simp add: step_defs heights_def fresh_id_def gap_seconds h gap_10_11_def)
qed

lemma tail_world_fields:
  "lastCommittedState tail_world = Some event10" "db_faults tail_world = []"
  "logs tail_world = []"
  "committed_state tail_world = \<lparr>docs = [(0, event10)], height_index = UniqueIndex\<rparr>"
  "block_time_gap tail_world = \<lparr>docs = [], height_index = UniqueIndex\<rparr>"
  "files tail_world live_path = Some (Regular 1)"
  "inodes tail_world 1 = (line10 @ [newline]) @ (line11 @ [newline])"
  "open_files tail_world 3 = Some (1, length (line10 @ [newline]))"
  "next_fd tail_world = 4"
  by (simp_all add: tail_world_def world_after_10_fields)

lemma reopen_world_fields:
  "lastCommittedState reopen_world = Some event10" "db_faults reopen_world = []"
  "logs reopen_world = []"
  "committed_state reopen_world = \<lparr>docs = [(0, event10)], height_index = UniqueIndex\<rparr>"
  "block_time_gap reopen_world = \<lparr>docs = [], height_index = UniqueIndex\<rparr>"
  "files reopen_world live_path = Some (Regular 1)"
  "inodes reopen_world 1 = (line10 @ [newline]) @ (line11 @ [newline])"
  "next_fd reopen_world = 4"
  by (simp_all add: reopen_world_def tail_world_fields) (simp_all add: tail_world_def)

lemma event_bits:
  "Name write_event = live_path" "Op write_event AND Write = Write"
  "Op write_event AND Create \<noteq> Create"
  "Name create_event = live_path" "Op create_event AND Create = Create"
  "Op create_event AND Write \<noteq> Write"
  "Name other_event \<noteq> live_path"
  by (simp_all add: write_event_def create_event_def other_event_def live_path_def
      Write_def Create_def)

theorem write_without_handle_reopens_at_offset_witness:
  "Name write_event = live_path \<and> Op write_event AND Write = Write
   \<and> file_handle lost_state = None \<and> files gone_world live_path = None
   \<and> handle_event live_path write_event (lost_state, gone_world)
       = (lost_state, log_Printf (LogWatchOpenError live_path) gone_world)
   \<and> files reopen_world live_path = Some (Regular 1)
   \<and> fst (handle_event live_path write_event (lost_state, reopen_world))
       = \<lparr>file_handle = Some 4,
          currentPos = length (line10 @ [newline]) + length (line11 @ [newline])\<rparr>
   \<and> map snd (docs (committed_state
         (snd (handle_event live_path write_event (lost_state, reopen_world)))))
       = [event10, event11]"
proof -
  have l: "file_handle lost_state = None"
    "currentPos lost_state = length (line10 @ [newline])"
    by (simp_all add: lost_state_def)
  have g: "files gone_world live_path = None" by (simp add: gone_world_def)
  have sc: "scan_lines (drop (currentPos lost_state) (inodes reopen_world 1))
      = ([line11], False, length (line11 @ [newline]))"
    unfolding l reopen_world_fields by (simp add: scan_line11 del: append_assoc)
  note t1 = write_without_handle_reopens_at_offset [of write_event live_path lost_state gone_world]
  note t2 = write_without_handle_reopens_at_offset [of write_event live_path lost_state reopen_world]
  from t1 event_bits l g
  have 1: "handle_event live_path write_event (lost_state, gone_world)
       = (lost_state, log_Printf (LogWatchOpenError live_path) gone_world)"
    by simp
  from t2 event_bits
  have "handle_event live_path write_event (lost_state, reopen_world)
      = on_write live_path (lost_state, reopen_world)"
    by simp
  moreover from t2 l reopen_world_fields(6) sc
  have "on_write live_path (lost_state, reopen_world) =
      (\<lparr>file_handle = Some (next_fd reopen_world),
        currentPos = currentPos lost_state + length (line11 @ [newline])\<rparr>,
       (if False then log_Printf LogWatchReadError (process_lines [line11] reopen_world)
        else process_lines [line11] reopen_world)
         \<lparr>open_files := (open_files reopen_world)
            (next_fd reopen_world \<mapsto> (1, currentPos lost_state + length (line11 @ [newline]))),
          next_fd := Suc (next_fd reopen_world)\<rparr>)"
    by blast
  ultimately have 2: "handle_event live_path write_event (lost_state, reopen_world) =
      (\<lparr>file_handle = Some 4,
        currentPos = length (line10 @ [newline]) + length (line11 @ [newline])\<rparr>,
       (parseAndStore line11 reopen_world)
         \<lparr>open_files := (open_files reopen_world)
            (4 \<mapsto> (1, length (line10 @ [newline]) + length (line11 @ [newline]))),
          next_fd := 5\<rparr>)"
    by (simp add: l reopen_world_fields process_lines_def)
  show ?thesis
    unfolding 1 2 using event_bits l g
    by (simp add: reopen_world_fields run_line11_from)
qed

section \<open>Witnesses for files that cannot be opened\<close>

theorem unopenable_file_is_skipped_witness:
  "files disk_world ''logs/stdout-xx.txt.7'' = None
   \<and> processSingleFile ''logs/stdout-xx.txt.7'' disk_world = disk_world
   \<and> files disk_world ''logs/locked.txt'' = Some (Denied 4)
   \<and> logs (processSingleFile ''logs/locked.txt'' disk_world) = [LogOpenError ''logs/locked.txt'']"
proof -
  have f: "files disk_world ''logs/stdout-xx.txt.7'' = None"
    "files disk_world ''logs/locked.txt'' = Some (Denied 4)"
    "logs disk_world = []"
    by (simp_all add: disk_world_def fresh_world_def)
  show ?thesis
    using unopenable_file_is_skipped [of disk_world "''logs/stdout-xx.txt.7''"]
      unopenable_file_is_skipped [of disk_world "''logs/locked.txt''"] f
    by (simp add: log_Printf_def)
qed

text \<open>
  The claim as it was stated fails for a missing file: nothing is logged.
\<close>

theorem missing_file_diagnostic_counterexample:
  "files disk_world ''logs/stdout-xx.txt.7'' = None
   \<and> logs (processSingleFile ''logs/stdout-xx.txt.7'' disk_world) = logs disk_world
   \<and> logs disk_world = []"
  by (simp add: processSingleFile_def os_Open_def disk_world_def fresh_world_def)

section \<open>What a notification does\<close>






section \<open>The historical files\<close>

lemmas name_defs = historicalLogs_def literal_name_def historical_suffix_def suffix_number_def
  rune_len_def byte_in_def Atoi_def
  ParseInt_def ParseUint_def isDigit_def digit_val_def maxUint64_def maxInt64_def minInt64_def
  newline_def

lemma historicalLogs_numeric:
  "historicalLogs ''stdout-xx.txt''
     [(''stdout-xx.txt'', False), (''stdout-xx.txt.10'', False), (''stdout-xx.txt.2'', False),
      (''stdout-xx.txt.3'', True), (''stdout-xx.txt.old'', False)]
   = Some [''stdout-xx.txt.2'', ''stdout-xx.txt.10'']"
  by (simp add: name_defs)

lemma historicalLogs_disk:
  "historicalLogs ''stdout-xx.txt''
     [(''locked.txt'', False), (''stdout-xx.txt'', False),
      (''stdout-xx.txt.2'', False), (''stdout-xxxtxt.1'', False)]
   = Some [''stdout-xxxtxt.1'', ''stdout-xx.txt.2'']"
  by (simp add: name_defs)


lemma processSingleFile_regular:
  assumes "files w p = Some (Regular ino)" "scan_lines (inodes w ino) = (toks, err, n)"
  shows "processSingleFile p w =
     (if err then log_Printf (LogReadError p) (process_lines toks w) else process_lines toks w)
       \<lparr>open_files := (open_files w)(next_fd w := None), next_fd := Suc (next_fd w)\<rparr>"
  using assms
  by (simp add: processSingleFile_def os_Open_def scan_fd_def os_Close_def log_Printf_def
      process_lines_open_files process_lines_next_fd)

lemma scan_line10:
  "scan_lines (line10 @ [newline]) = ([line10], False, length (line10 @ [newline]))"
  using scan_lines_complete [of "[line10]" "[]"] example_lines
  by (simp add: MaxScanTokenSize_def)

lemma run_line10_from:
  assumes "lastCommittedState w = None" "db_faults w = []"
    and "committed_state w = \<lparr>docs = [], height_index = UniqueIndex\<rparr>"
  shows "parseAndStore line10 w =
     w\<lparr>lastCommittedState := Some event10,
       committed_state := \<lparr>docs = [(0, event10)], height_index = UniqueIndex\<rparr>\<rparr>"
proof -
  have m: "FindStringSubmatch line10 \<noteq> []" by (simp add: find_line10)
  show ?thesis
    unfolding parseAndStore_match [OF m] entry_line10
    using assms by (simp add: step_defs heights_def fresh_id_def)
qed

text \<open>
  Claim C6 at the failing input: with the default live name, a file whose name has
  another character where the live name has its period is taken for a rotated file. It
  is put first (its number is 1) and its content is parsed before the rotated file.
\<close>

theorem foreign_file_is_selected:
  "dirs disk_world ''logs'' =
     Some [(''locked.txt'', False), (''stdout-xx.txt'', False),
           (''stdout-xx.txt.2'', False), (''stdout-xxxtxt.1'', False)]
   \<and> historicalLogs ''stdout-xx.txt''
        [(''locked.txt'', False), (''stdout-xx.txt'', False),
         (''stdout-xx.txt.2'', False), (''stdout-xxxtxt.1'', False)]
       = Some [''stdout-xxxtxt.1'', ''stdout-xx.txt.2'']
   \<and> inodes disk_world 3 = line10 @ [newline]
   \<and> map_option logs (processHistoricalLogs ''logs'' ''stdout-xx.txt'' disk_world) =
       Some [LogHistoricalStart, LogProcessingHistorical ''logs/stdout-xxxtxt.1'',
             LogProcessingHistorical ''logs/stdout-xx.txt.2'', LogGapDetected 6 10 11 1,
             LogHistoricalDone]
   \<and> map_option (\<lambda>w. map snd (docs (committed_state w)))
         (processHistoricalLogs ''logs'' ''stdout-xx.txt'' disk_world)
       = Some [event10, event11]"
proof -
  define w1 where "w1 = log_Printf (LogProcessingHistorical ''logs/stdout-xxxtxt.1'')
      (log_Printf LogHistoricalStart disk_world)"
  define w1' where "w1' = (w1\<lparr>lastCommittedState := Some event10,
       committed_state := \<lparr>docs = [(0, event10)], height_index = UniqueIndex\<rparr>\<rparr>)
         \<lparr>open_files := (open_files w1)(next_fd w1 := None), next_fd := Suc (next_fd w1)\<rparr>"
  define w2 where "w2 = log_Printf (LogProcessingHistorical ''logs/stdout-xx.txt.2'') w1'"
  define w2' where "w2' = (w2\<lparr>lastCommittedState := Some event11,
       committed_state := \<lparr>docs = [(0, event10), (1, event11)], height_index = UniqueIndex\<rparr>,
       block_time_gap := \<lparr>docs = [(0, gap_10_11)], height_index = UniqueIndex\<rparr>,
       logs := logs w2 @ [LogGapDetected 6 10 11 1]\<rparr>)
         \<lparr>open_files := (open_files w2)(next_fd w2 := None), next_fd := Suc (next_fd w2)\<rparr>"
  have d: "dirs disk_world ''logs'' =
     Some [(''locked.txt'', False), (''stdout-xx.txt'', False),
           (''stdout-xx.txt.2'', False), (''stdout-xxxtxt.1'', False)]"
    "inodes disk_world 3 = line10 @ [newline]"
    by (simp_all add: disk_world_def)
  have f1: "files w1 ''logs/stdout-xxxtxt.1'' = Some (Regular 3)"
    "inodes w1 3 = line10 @ [newline]" "lastCommittedState w1 = None" "db_faults w1 = []"
    "committed_state w1 = \<lparr>docs = [], height_index = UniqueIndex\<rparr>"
    "logs w1 = [LogHistoricalStart, LogProcessingHistorical ''logs/stdout-xxxtxt.1'']"
    by (simp_all add: w1_def log_Printf_def disk_world_def fresh_world_def)
  have s1: "processSingleFile ''logs/stdout-xxxtxt.1'' w1 = w1'"
    unfolding processSingleFile_regular [OF f1(1) scan_line10 [folded f1(2)]] w1'_def
    by (simp add: process_lines_def run_line10_from f1)
  have f2: "files w2 ''logs/stdout-xx.txt.2'' = Some (Regular 2)"
    "inodes w2 2 = line11 @ [newline]" "lastCommittedState w2 = Some event10"
    "db_faults w2 = []"
    "committed_state w2 = \<lparr>docs = [(0, event10)], height_index = UniqueIndex\<rparr>"
    "block_time_gap w2 = \<lparr>docs = [], height_index = UniqueIndex\<rparr>"
    "logs w2 = [LogHistoricalStart, LogProcessingHistorical ''logs/stdout-xxxtxt.1'',
                LogProcessingHistorical ''logs/stdout-xx.txt.2'']"
    by (simp_all add: w2_def w1'_def f1 log_Printf_def)
      (simp_all add: w1_def log_Printf_def disk_world_def fresh_world_def)
  have s2: "processSingleFile ''logs/stdout-xx.txt.2'' w2 = w2'"
    unfolding processSingleFile_regular [OF f2(1) scan_line11 [folded f2(2)]] w2'_def
    by (simp add: process_lines_def run_line11_from f2)
  have j: "Join ''logs'' ''stdout-xxxtxt.1'' = ''logs/stdout-xxxtxt.1''"
    "Join ''logs'' ''stdout-xx.txt.2'' = ''logs/stdout-xx.txt.2''"
    by (simp_all add: Join_def Clean_def clean_step_def)
  have "processHistoricalLogs ''logs'' ''stdout-xx.txt'' disk_world =
      Some (log_Printf LogHistoricalDone
        (processSingleFile ''logs/stdout-xx.txt.2''
           (log_Printf (LogProcessingHistorical ''logs/stdout-xx.txt.2'')
              (processSingleFile ''logs/stdout-xxxtxt.1'' w1))))"
    unfolding processHistoricalLogs_def w1_def
    by (simp add: Let_def log_Printf_def d historicalLogs_disk j)
  then have r: "processHistoricalLogs ''logs'' ''stdout-xx.txt'' disk_world =
      Some (log_Printf LogHistoricalDone w2')"
    by (simp add: s1 s2 w2_def [symmetric])
  have "logs (log_Printf LogHistoricalDone w2') =
       [LogHistoricalStart, LogProcessingHistorical ''logs/stdout-xxxtxt.1'',
        LogProcessingHistorical ''logs/stdout-xx.txt.2'', LogGapDetected 6 10 11 1,
        LogHistoricalDone]"
    "map snd (docs (committed_state (log_Printf LogHistoricalDone w2'))) = [event10, event11]"
    by (simp_all add: log_Printf_def w2'_def f2)
  then show ?thesis
    unfolding r using d historicalLogs_disk by simp
qed

section \<open>The repair of duplicates\<close>

lemma delete_all_simps [simp]:
  "delete_all [] ds = ds"
  "delete_all (i # ids) ds = delete_all ids (delete_first i ds)"
  by (simp_all add: delete_all_def)

lemma delete_tails_simps [simp]:
  "delete_tails [] ds = ds"
  "delete_tails ((h, ids, count) # groups) ds = delete_tails groups (delete_all (tl ids) ds)"
  by (simp_all add: delete_tails_def)

lemma in_tl: "x \<in> set (tl xs) \<Longrightarrow> x \<in> set xs"
  by (cases xs) auto

lemma delete_first_absent: "i \<notin> fst ` set ds \<Longrightarrow> delete_first i ds = ds"
  by (induction ds) auto

lemma delete_all_keeps_head:
  "i \<notin> set ids \<Longrightarrow> delete_all ids ((i, d) # ds) = (i, d) # delete_all ids ds"
  by (induction ids arbitrary: ds) auto

lemma delete_tails_keeps_head:
  "\<forall>(h, ids, count) \<in> set groups. i \<notin> set (tl ids) \<Longrightarrow>
   delete_tails groups ((i, d) # ds) = (i, d) # delete_tails groups ds"
  by (induction groups arbitrary: ds) (auto simp add: delete_all_keeps_head)

lemma delete_all_filter:
  "distinct (map fst ds) \<Longrightarrow>
   delete_all (map fst (filter P ds)) ds = filter (\<lambda>x. \<not> P x) ds"
proof (induction ds)
  case Nil
  then show ?case by simp
next
  case (Cons x ds)
  obtain j e where x: "x = (j, e)" by (cases x)
  have j: "j \<notin> set (map fst (filter P ds))" using Cons.prems x by auto
  show ?case
    using Cons x j by (simp add: delete_all_keeps_head)
qed

lemma group_ids_subset:
  "(h, ids, count) \<in> set (group_by_height key ds) \<Longrightarrow> set ids \<subseteq> fst ` set ds"
proof (induction key ds arbitrary: h ids count rule: group_by_height.induct)
  case (1 key)
  then show ?case by simp
next
  case (2 key i d ds)
  show ?case
  proof (cases "(h, ids, count) = (key d, i # map fst (filter (\<lambda>(j, e). key e = key d) ds),
      Suc (length (filter (\<lambda>(j, e). key e = key d) ds)))")
    case True
    then show ?thesis by auto
  next
    case False
    then have "(h, ids, count) \<in> set (group_by_height key (filter (\<lambda>(j, e). key e \<noteq> key d) ds))"
      using "2.prems" by (auto simp add: Let_def)
    then have "set ids \<subseteq> fst ` set (filter (\<lambda>(j, e). key e \<noteq> key d) ds)"
      using "2.IH" by blast
    then show ?thesis by auto
  qed
qed

lemma group_count:
  "(h, ids, count) \<in> set (group_by_height key ds) \<Longrightarrow> count = length ids"
proof (induction key ds arbitrary: h ids count rule: group_by_height.induct)
  case (1 key)
  then show ?case by simp
next
  case (2 key i d ds)
  then show ?case by (auto simp add: Let_def)
qed

lemma delete_tails_first:
  "distinct (map fst ds) \<Longrightarrow> delete_tails (group_by_height key ds) ds = first_of_each_height key ds"
proof (induction key ds rule: group_by_height.induct)
  case (1 key)
  then show ?case by simp
next
  case (2 key i d ds)
  let ?same = "filter (\<lambda>(j, e). key e = key d) ds"
  let ?others = "filter (\<lambda>(j, e). key e \<noteq> key d) ds"
  have dist: "distinct (map fst ds)" "i \<notin> fst ` set ds" using "2.prems" by auto
  have o: "filter (\<lambda>x. \<not> (case x of (j, e) \<Rightarrow> key e = key d)) ds = ?others"
    by (rule filter_cong) auto
  have "delete_all (map fst ?same) ((i, d) # ds) = (i, d) # delete_all (map fst ?same) ds"
    using dist by (intro delete_all_keeps_head) auto
  also have "\<dots> = (i, d) # ?others"
    using delete_all_filter [OF dist(1), of "\<lambda>(j, e). key e = key d"] o by simp
  finally have step: "delete_all (map fst ?same) ((i, d) # ds) = (i, d) # ?others" .
  have "\<forall>(h, ids, count) \<in> set (group_by_height key ?others). i \<notin> set (tl ids)"
  proof -
    have "i \<notin> set ids" if "(h, ids, count) \<in> set (group_by_height key ?others)" for h ids count
      using group_ids_subset [OF that] dist(2) by auto
    then show ?thesis by (auto dest: in_tl)
  qed
  then have keep: "delete_tails (group_by_height key ?others) ((i, d) # ?others)
      = (i, d) # delete_tails (group_by_height key ?others) ?others"
    by (rule delete_tails_keeps_head)
  have "distinct (map fst ?others)" using dist(1) by (simp add: distinct_map_filter)
  then have ih: "delete_tails (group_by_height key ?others) ?others
      = first_of_each_height key ?others"
    using "2.IH" by simp
  show ?case
    by (simp add: Let_def step keep ih)
qed


lemma first_subset: "set (first_of_each_height key ds) \<subseteq> set ds"
proof (induction key ds rule: first_of_each_height.induct)
  case (1 key)
  then show ?case by simp
next
  case (2 key i d ds)
  then show ?case by auto
qed

lemma first_distinct: "distinct (map (\<lambda>(i, d). key d) (first_of_each_height key ds))"
proof (induction key ds rule: first_of_each_height.induct)
  case (1 key)
  then show ?case by simp
next
  case (2 key i d ds)
  have "key d \<notin> (\<lambda>(i, d). key d) ` set (filter (\<lambda>(j, e). key e \<noteq> key d) ds)"
    by auto
  then have "key d \<notin> (\<lambda>(i, d). key d) `
      set (first_of_each_height key (filter (\<lambda>(j, e). key e \<noteq> key d) ds))"
    using first_subset [of key "filter (\<lambda>(j, e). key e \<noteq> key d) ds"] by blast
  then show ?case using 2 by simp
qed

lemma first_heights:
  "(\<lambda>(i, d). key d) ` set (first_of_each_height key ds) = (\<lambda>(i, d). key d) ` set ds"
proof (induction key ds rule: first_of_each_height.induct)
  case (1 key)
  then show ?case by simp
next
  case (2 key i d ds)
  have "(\<lambda>(i, d). key d) ` set ds
      = (\<lambda>(i, d). key d) ` set (filter (\<lambda>(j, e). key e \<noteq> key d) ds) \<union>
        (\<lambda>(i, d). key d) ` set (filter (\<lambda>(j, e). key e = key d) ds)"
    by auto
  moreover have "(\<lambda>(i, d). key d) ` set (filter (\<lambda>(j, e). key e = key d) ds) \<subseteq> {key d}"
    by auto
  ultimately show ?case using 2 by auto
qed

lemma delete_loop_no_fault:
  "foldl delete_id ([], lg, cnt, c) ids =
     ([], lg, cnt + length ids, c\<lparr>docs := delete_all ids (docs c)\<rparr>)"
  by (induction ids arbitrary: cnt c)
    (simp_all add: delete_id_def pop_fault_def DeleteOne_def)

lemma group_loop_no_fault:
  "\<exists>cnt'. foldl (\<lambda>st (h, ids, count).
              if length ids > 1 then foldl delete_id st (tl ids) else st)
        ([], lg, cnt, c) groups =
     ([], lg, cnt', c\<lparr>docs := delete_tails groups (docs c)\<rparr>)"
proof (induction groups arbitrary: cnt c)
  case Nil
  then show ?case by simp
next
  case (Cons g groups)
  obtain h ids count where g: "g = (h, ids, count)" by (cases g)
  show ?case
  proof (cases "length ids > 1")
    case True
    then show ?thesis
      using Cons [of "cnt + length (tl ids)" "c\<lparr>docs := delete_all (tl ids) (docs c)\<rparr>"]
      by (simp add: g delete_loop_no_fault)
  next
    case False
    then have "tl ids = []" by (cases ids) auto
    then show ?thesis using Cons [of cnt c] False by (simp add: g)
  qed
qed

lemma delete_tails_matched:
  "\<forall>(h, ids, count) \<in> set groups. count = length ids \<Longrightarrow>
   delete_tails (filter (\<lambda>(h, ids, count). count > 1) groups) ds = delete_tails groups ds"
proof (induction groups arbitrary: ds)
  case Nil
  then show ?case by simp
next
  case (Cons g groups)
  obtain h ids count where g: "g = (h, ids, count)" by (cases g)
  have "tl ids = []" if "\<not> count > 1"
    using that Cons.prems g by (cases ids) auto
  then show ?case using Cons g by auto
qed

lemma removeDuplicates_no_fault:
  assumes "distinct (map fst (docs c))"
  shows "\<exists>lg'. removeDuplicates key ([], lg, c) =
     (None, [], lg', c\<lparr>docs := first_of_each_height key (docs c)\<rparr>)"
proof -
  let ?groups = "filter (\<lambda>(h, ids, count). count > 1) (group_by_height key (docs c))"
  obtain cnt' where l: "foldl (\<lambda>st (h, ids, count).
              if length ids > 1 then foldl delete_id st (tl ids) else st)
        ([], lg, 0, c) ?groups =
     ([], lg, cnt', c\<lparr>docs := delete_tails ?groups (docs c)\<rparr>)"
    using group_loop_no_fault by blast
  have "delete_tails ?groups (docs c) = delete_tails (group_by_height key (docs c)) (docs c)"
    using group_count by (intro delete_tails_matched) blast
  then have d: "delete_tails ?groups (docs c) = first_of_each_height key (docs c)"
    using assms by (simp add: delete_tails_first)
  show ?thesis
    using l d by (simp add: removeDuplicates_def pop_fault_def Aggregate_def)
qed


lemma heights_docs: "heights key (c\<lparr>docs := ds\<rparr>) = map (\<lambda>(i, d). key d) ds"
  by (simp add: heights_def)

text \<open>
  Claim C3. For a collection without the index whose documents do not all differ in
  height (so the creation of the unique index fails with a duplicate-key error), and with
  a store that reports no fault: \<^verbatim>\<open>createUniqueIndex\<close> returns no error, the index is in
  place, and the documents left are, for each height, the first one in the order of the
  collection; no height is lost and no two documents share one. For the collection with
  two documents of height 100 exactly the first of them remains.
\<close>

theorem duplicate_repair:
  "(height_index c = NoIndex \<and> \<not> distinct (heights key c) \<and> distinct (map fst (docs c)) \<longrightarrow>
      (\<exists>lg'. createUniqueIndex key name ([], lg, c) =
          (None, [], lg',
           c\<lparr>docs := first_of_each_height key (docs c), height_index := UniqueIndex\<rparr>))
      \<and> distinct (heights key (c\<lparr>docs := first_of_each_height key (docs c)\<rparr>))
      \<and> set (heights key (c\<lparr>docs := first_of_each_height key (docs c)\<rparr>)) = set (heights key c)
      \<and> set (first_of_each_height key (docs c)) \<subseteq> set (docs c))
   \<and> createUniqueIndex Height ''committed_state'' ([], [], twice_100) =
       (None, [],
        [LogDuplicatesFound ''committed_state'', LogCleaned 1, LogIndexCreated ''committed_state''],
        \<lparr>docs = [(1, event10\<lparr>Height := 100\<rparr>)], height_index = UniqueIndex\<rparr>)
   \<and> length (filter (\<lambda>(i, d). Height d = 100)
         (docs (snd (snd (snd (createUniqueIndex Height ''committed_state'' ([], [], twice_100)))))))
       = 1"
proof -
  have general: "(\<exists>lg'. createUniqueIndex key name ([], lg, c) =
          (None, [], lg',
           c\<lparr>docs := first_of_each_height key (docs c), height_index := UniqueIndex\<rparr>))
      \<and> distinct (heights key (c\<lparr>docs := first_of_each_height key (docs c)\<rparr>))
      \<and> set (heights key (c\<lparr>docs := first_of_each_height key (docs c)\<rparr>)) = set (heights key c)
      \<and> set (first_of_each_height key (docs c)) \<subseteq> set (docs c)"
    if n: "height_index c = NoIndex" and dup: "\<not> distinct (heights key c)"
      and ids: "distinct (map fst (docs c))"
  proof -
    let ?c' = "c\<lparr>docs := first_of_each_height key (docs c)\<rparr>"
    have first: "CreateOne key False c = (Some DuplicateKey, c)"
      using n dup by (simp add: CreateOne_def)
    obtain lg' where rd: "removeDuplicates key ([], lg @ [LogDuplicatesFound name], c) =
        (None, [], lg', ?c')"
      using removeDuplicates_no_fault [OF ids] by blast
    have dist: "distinct (heights key ?c')"
      by (simp add: heights_docs first_distinct)
    then have retry: "CreateOne key False ?c' = (None, ?c'\<lparr>height_index := UniqueIndex\<rparr>)"
      using n by (simp add: CreateOne_def)
    have "createUniqueIndex key name ([], lg, c) =
        (None, [], lg' @ [LogIndexCreated name], ?c'\<lparr>height_index := UniqueIndex\<rparr>)"
      by (simp add: createUniqueIndex_def pop_fault_def first rd retry)
    moreover have "set (heights key ?c') = set (heights key c)"
      using first_heights [of key "docs c"] by (simp add: heights_def)
    ultimately show ?thesis
      using dist first_subset [of key "docs c"] by simp
  qed
  have ex: "createUniqueIndex Height ''committed_state'' ([], [], twice_100) =
       (None, [],
        [LogDuplicatesFound ''committed_state'', LogCleaned 1, LogIndexCreated ''committed_state''],
        \<lparr>docs = [(1, event10\<lparr>Height := 100\<rparr>)], height_index = UniqueIndex\<rparr>)"
    by (simp add: createUniqueIndex_def pop_fault_def CreateOne_def removeDuplicates_def
        Aggregate_def delete_id_def DeleteOne_def heights_def twice_100_def Let_def)
  have "length (filter (\<lambda>(i, d). Height d = 100)
         (docs (snd (snd (snd (createUniqueIndex Height ''committed_state'' ([], [], twice_100)))))))
       = 1"
    unfolding ex by simp
  with general ex show ?thesis by blast
qed

theorem duplicate_repair_witness:
  "height_index twice_100 = NoIndex \<and> \<not> distinct (heights Height twice_100)
   \<and> distinct (map fst (docs twice_100))
   \<and> (\<exists>lg'. createUniqueIndex Height ''committed_state'' ([], [], twice_100) =
         (None, [], lg', \<lparr>docs = [(1, event10\<lparr>Height := 100\<rparr>)], height_index = UniqueIndex\<rparr>))
   \<and> distinct (heights Height
         (twice_100\<lparr>docs := first_of_each_height Height (docs twice_100)\<rparr>))"
proof -
  have h: "height_index twice_100 = NoIndex" "\<not> distinct (heights Height twice_100)"
    "distinct (map fst (docs twice_100))"
    by (simp_all add: twice_100_def heights_def)
  have f: "twice_100\<lparr>docs := first_of_each_height Height (docs twice_100),
                      height_index := UniqueIndex\<rparr>
      = \<lparr>docs = [(1, event10\<lparr>Height := 100\<rparr>)], height_index = UniqueIndex\<rparr>"
    by (simp add: twice_100_def)
  note t = duplicate_repair [of twice_100 Height "''committed_state''" "[]"]
  from t h have "(\<exists>lg'. createUniqueIndex Height ''committed_state'' ([], [], twice_100) =
          (None, [], lg',
           twice_100\<lparr>docs := first_of_each_height Height (docs twice_100),
                     height_index := UniqueIndex\<rparr>))
      \<and> distinct (heights Height
            (twice_100\<lparr>docs := first_of_each_height Height (docs twice_100)\<rparr>))"
    by blast
  then show ?thesis unfolding f using h by simp
qed

section \<open>A gap after an event without a timestamp\<close>

lemma run_bad_then_10:
  "process_lines [line_bad, line10] fresh_world =
     fresh_world\<lparr>lastCommittedState := Some event10,
                 committed_state :=
                   \<lparr>docs = [(0, bad_event), (1, event10)], height_index = UniqueIndex\<rparr>,
                 block_time_gap := \<lparr>docs = [(0, saturated_gap)], height_index = UniqueIndex\<rparr>,
                 logs := [LogGapDetected (9223372036854775807 / 1000000000) 0 10 3]\<rparr>"
proof -
  have mb: "FindStringSubmatch line_bad \<noteq> []" by (simp add: find_line_bad)
  have m10: "FindStringSubmatch line10 \<noteq> []" by (simp add: find_line10)
  have b: "parse_entry (FindStringSubmatch line_bad) = bad_event"
    by (simp add: entry_line_bad bad_event_def)
  have h: "Height bad_event = 0" "Timestamp bad_event = 0" "Height event10 = 10"
    "Txs event10 = 3" "Timestamp event10 = 63839664005000000000"
    by (simp_all add: bad_event_def event10_def)
  have s: "Seconds (Sub 63839664005000000000 0) = 9223372036854775807 / 1000000000"
    by (simp add: gap_time_diff maxInt64_def)
  have 1: "parseAndStore line_bad fresh_world =
      fresh_world\<lparr>lastCommittedState := Some bad_event,
                  committed_state := \<lparr>docs = [(0, bad_event)], height_index = UniqueIndex\<rparr>\<rparr>"
    unfolding parseAndStore_match [OF mb] b
    by (simp add: step_defs fresh_world_def heights_def fresh_id_def)
  show ?thesis
    unfolding process_lines_def foldl.simps 1 parseAndStore_match [OF m10] entry_line10
    by (simp add: step_defs fresh_world_def heights_def fresh_id_def h s saturated_gap_def)
qed

text \<open>
  The claim as it was stated fails when the held event has no timestamp: the first line
  does not parse its timestamp and is held with the zero time, the second follows
  63839664005 seconds after the zero time, and the stored difference is the largest
  duration, 9223372036.854775807 seconds.
\<close>

theorem saturated_gap_counterexample:
  "map snd (docs (committed_state (process_lines [line_bad, line10] fresh_world)))
     = [bad_event, event10]
   \<and> map snd (docs (block_time_gap (process_lines [line_bad, line10] fresh_world)))
       = [saturated_gap]
   \<and> Timestamp event10 - Timestamp bad_event = 63839664005 * 1000000000
   \<and> TimeDiff saturated_gap * 1000000000 = 9223372036854775807
   \<and> TimeDiff saturated_gap \<noteq> 63839664005"
  by (simp add: run_bad_then_10 bad_event_def event10_def saturated_gap_def)

end
